theory Spec2Isabelle
  imports Main "HOL-Library.Multiset" "HOL-Library.AList" "HOL-Library.Char_ord"
    "HOL-Library.List_Lexorder" "HOL-Library.Product_Lexorder"
begin

section \<open>Shared data structures (package types)\<close>

text \<open>
  Go strings are byte sequences and are modelled by \<^typ>\<open>string\<close>; the order \<open><\<close> on
  them is the bytewise lexicographic order of Go. A \<open>time.Time\<close> is modelled by the
  instant it denotes, an \<^typ>\<open>int\<close>. Go's \<open>int\<close> counters are modelled by \<^typ>\<open>int\<close>:
  every counter below is bounded by the length of a slice, so no wrap-around can occur.

  A Go map is modelled by an association list that is read through \<^const>\<open>map_of\<close>, and a
  map-typed field by an optional association list, \<^const>\<open>None\<close> being the nil map.
  \<open>reflect.DeepEqual\<close> is modelled by HOL equality; for this the association list of a
  map is taken in its canonical form (keys sorted, no duplicates). The order in which a
  \<open>range\<close> statement visits the keys of a map is not fixed by Go; it is an explicit
  parameter of every function that ranges over a map.

  The dynamic values stored under \<open>interface{}\<close> are the trees that the YAML and JSON
  decoders build: nil, booleans, integers, strings, sequences and string-keyed mappings
  (floating-point scalars are left out).
\<close>

datatype gvalue = VNil | VBool bool | VInt int | VStr string
  | VSeq "gvalue list" | VMap "(string \<times> gvalue) list"

type_synonym 'v gomap = "(string \<times> 'v) list option"

record Resource =
  APIVersion :: string
  Kind :: string
  Namespace :: string
  Name :: string
  Labels :: "string gomap"
  Annotations :: "string gomap"
  Spec :: "gvalue gomap"
  Data :: "gvalue gomap"
  Raw :: "gvalue gomap"

definition FullName :: "Resource \<Rightarrow> string" where
  "FullName r =
     (if Namespace r = [] then Kind r @ ''/'' @ Name r
      else Namespace r @ ''/'' @ Kind r @ ''/'' @ Name r)"

record SnapshotMetadata =
  Timestamp :: int
  ClusterName :: string
  Context :: string
  ResourceCount :: int
  Namespaces :: "string list"
  CommitHash :: string

record ResourceSnapshot =
  Metadata :: SnapshotMetadata
  Resources :: "Resource list"

record DriftSummary =
  TotalResources :: int
  AddedResources :: int
  RemovedResources :: int
  ModifiedResources :: int
  UnchangedResources :: int

datatype DriftType = DriftAdded | DriftRemoved | DriftModified

text \<open>\<open>DriftType\<close> is a string type in the source; its three constants are these strings,
  and the comparison \<open>Type < Type\<close> of the sort is the comparison of these strings.\<close>

fun DriftType_string :: "DriftType \<Rightarrow> string" where
  "DriftType_string DriftAdded = ''ADDED''"
| "DriftType_string DriftRemoved = ''REMOVED''"
| "DriftType_string DriftModified = ''MODIFIED''"

text \<open>The value of an \<open>interface{}\<close> field of a field diff: a dynamic value, or a
  \<open>map[string]string\<close> (the labels and annotations). An unset field is the nil interface.\<close>

datatype iface = IValue gvalue | IStringMap "string gomap"

record FieldDiff =
  Path :: string
  OldValue :: iface
  NewValue :: iface

record DriftEntry =
  Type :: DriftType
  Resource :: Resource
  FieldDiffs :: "FieldDiff list"

record DriftReport =
  Timestamp :: int
  BaseRef :: string
  TargetRef :: string
  Summary :: DriftSummary
  Entries :: "DriftEntry list"

section \<open>Go maps\<close>

definition keys :: "'v gomap \<Rightarrow> string list" where
  "keys m = (case m of None \<Rightarrow> [] | Some al \<Rightarrow> remdups (map fst al))"

definition lookup :: "'v gomap \<Rightarrow> string \<Rightarrow> 'v option" where
  "lookup m k = (case m of None \<Rightarrow> None | Some al \<Rightarrow> map_of al k)"

text \<open>\<open>v, ok := m[k]\<close>: the zero value (the nil interface) and \<open>false\<close> when the key is
  missing, also on a nil map.\<close>

definition comma_ok :: "gvalue gomap \<Rightarrow> string \<Rightarrow> gvalue \<times> bool" where
  "comma_ok m k = (case lookup m k of None \<Rightarrow> (VNil, False) | Some v \<Rightarrow> (v, True))"

text \<open>The type assertion \<open>v.(map[string]interface{})\<close>.\<close>

fun asMap :: "gvalue \<Rightarrow> (string \<times> gvalue) list option" where
  "asMap (VMap m) = Some m"
| "asMap _ = None"

text \<open>A \<open>range\<close> over a map visits each key once, in the order \<open>ord\<close> chooses.\<close>

definition range_map :: "(string list \<Rightarrow> string list) \<Rightarrow> (string \<times> 'v) list \<Rightarrow> (string \<times> 'v) list" where
  "range_map ord index =
     List.map_filter (\<lambda>k. map_option (Pair k) (map_of index k)) (ord (remdups (map fst index)))"

text \<open>An iteration order is a rearrangement of the keys it is given.\<close>

definition valid_order :: "(string list \<Rightarrow> string list) \<Rightarrow> bool" where
  "valid_order ord = (\<forall>ks. mset (ord ks) = mset ks)"

section \<open>The analyzer\<close>

definition indexResources :: "Resource list \<Rightarrow> (string \<times> Resource) list" where
  "indexResources resources =
     fold (\<lambda>r index. AList.update (FullName r) r index) resources []"

text \<open>\<open>ord\<close> gives, for each path prefix, the order in which \<open>range allKeys\<close> visits the
  keys.\<close>

function deepCompareMap ::
  "(string \<Rightarrow> string list \<Rightarrow> string list) \<Rightarrow> string \<Rightarrow> gvalue gomap \<Rightarrow> gvalue gomap \<Rightarrow> FieldDiff list"
where
  "deepCompareMap ord prefix base target =
     (if base = None \<and> target = None then []
      else
        concat (map
          (\<lambda>k. let path = prefix @ ''.'' @ k;
                   (baseVal, baseOk) = comma_ok base k;
                   (targetVal, targetOk) = comma_ok target k
               in if \<not> baseOk then
                    [\<lparr>Path = path, OldValue = IValue VNil, NewValue = IValue targetVal\<rparr>]
                  else if \<not> targetOk then
                    [\<lparr>Path = path, OldValue = IValue baseVal, NewValue = IValue VNil\<rparr>]
                  else
                    (case (asMap baseVal, asMap targetVal) of
                       (Some baseMap, Some targetMap) \<Rightarrow>
                         deepCompareMap ord path (Some baseMap) (Some targetMap)
                     | _ \<Rightarrow>
                         if baseVal \<noteq> targetVal then
                           [\<lparr>Path = path, OldValue = IValue baseVal, NewValue = IValue targetVal\<rparr>]
                         else []))
          (ord prefix (remdups (keys base @ keys target)))))"
  by pat_completeness auto
termination
proof (relation "measure (\<lambda>(ord, prefix, base, target). case base of None \<Rightarrow> 0 | Some al \<Rightarrow> size (VMap al))",
    goal_cases)
  case 1
  show ?case by simp
next
  case prems: 2
  have smaller: "map_of al k = Some (VMap sub) \<Longrightarrow> size (VMap sub) < size (VMap al)"
    for al :: "(string \<times> gvalue) list" and k sub
    by (induction al) (auto split: if_splits)
  from prems show ?case
    by (auto simp: comma_ok_def lookup_def split: option.splits elim!: asMap.elims dest: smaller)
qed

definition compareResources ::
  "(string \<Rightarrow> string list \<Rightarrow> string list) \<Rightarrow> Resource \<Rightarrow> Resource \<Rightarrow> FieldDiff list"
where
  "compareResources ord base target =
     (if Labels base \<noteq> Labels target then
        [\<lparr>Path = ''.metadata.labels'', OldValue = IStringMap (Labels base),
          NewValue = IStringMap (Labels target)\<rparr>]
      else []) @
     (if Annotations base \<noteq> Annotations target then
        [\<lparr>Path = ''.metadata.annotations'', OldValue = IStringMap (Annotations base),
          NewValue = IStringMap (Annotations target)\<rparr>]
      else []) @
     (if Spec base \<noteq> Spec target then deepCompareMap ord ''.spec'' (Spec base) (Spec target)
      else []) @
     (if Data base \<noteq> Data target then deepCompareMap ord ''.data'' (Data base) (Data target)
      else [])"

text \<open>What \<open>Compare\<close> takes from its environment: the clock reading of \<open>time.Now()\<close> and
  the iteration order of each of its \<open>range\<close> statements over a map (the three loops of
  \<open>Compare\<close> and the loop of \<open>deepCompareMap\<close>).\<close>

record CompareEnv =
  now :: int
  rangeRemoved :: "string list \<Rightarrow> string list"
  rangeAdded :: "string list \<Rightarrow> string list"
  rangeModified :: "string list \<Rightarrow> string list"
  rangeAllKeys :: "string \<Rightarrow> string list \<Rightarrow> string list"

definition valid_env :: "CompareEnv \<Rightarrow> bool" where
  "valid_env env =
     (valid_order (rangeRemoved env) \<and> valid_order (rangeAdded env) \<and>
      valid_order (rangeModified env) \<and> (\<forall>prefix. valid_order (rangeAllKeys env prefix)))"

text \<open>The comparison function handed to \<open>sort.Slice\<close> orders the entries by the pair
  (type, full name). \<open>sort.Slice\<close> is not stable; the entries of one report have
  pairwise different pairs (lemma \<open>distinct_entryKey_unsorted\<close>), so the sorted slice
  does not depend on the sorting algorithm.\<close>

definition entryKey :: "DriftEntry \<Rightarrow> string \<times> string" where
  "entryKey e = (DriftType_string (Type e), FullName (Resource e))"

definition sortEntries :: "DriftEntry list \<Rightarrow> DriftEntry list" where
  "sortEntries entries = sort_key entryKey entries"

definition countEntry :: "DriftEntry \<Rightarrow> DriftSummary \<Rightarrow> DriftSummary" where
  "countEntry entry s =
     (case Type entry of
        DriftAdded \<Rightarrow> s\<lparr>AddedResources := AddedResources s + 1\<rparr>
      | DriftRemoved \<Rightarrow> s\<lparr>RemovedResources := RemovedResources s + 1\<rparr>
      | DriftModified \<Rightarrow> s\<lparr>ModifiedResources := ModifiedResources s + 1\<rparr>)"

definition removedEntries :: "CompareEnv \<Rightarrow> (string \<times> Resource) list \<Rightarrow> (string \<times> Resource) list \<Rightarrow> DriftEntry list" where
  "removedEntries env baseIndex targetIndex =
     concat (map (\<lambda>(name, baseRes).
         if map_of targetIndex name = None then
           [\<lparr>Type = DriftRemoved, Resource = baseRes, FieldDiffs = []\<rparr>]
         else [])
       (range_map (rangeRemoved env) baseIndex))"

definition addedEntries :: "CompareEnv \<Rightarrow> (string \<times> Resource) list \<Rightarrow> (string \<times> Resource) list \<Rightarrow> DriftEntry list" where
  "addedEntries env baseIndex targetIndex =
     concat (map (\<lambda>(name, targetRes).
         if map_of baseIndex name = None then
           [\<lparr>Type = DriftAdded, Resource = targetRes, FieldDiffs = []\<rparr>]
         else [])
       (range_map (rangeAdded env) targetIndex))"

definition modifiedEntries :: "CompareEnv \<Rightarrow> (string \<times> Resource) list \<Rightarrow> (string \<times> Resource) list \<Rightarrow> DriftEntry list" where
  "modifiedEntries env baseIndex targetIndex =
     concat (map (\<lambda>(name, baseRes).
         case map_of targetIndex name of
           None \<Rightarrow> []
         | Some targetRes \<Rightarrow>
             (let diffs = compareResources (rangeAllKeys env) baseRes targetRes
              in if length diffs > 0 then
                   [\<lparr>Type = DriftModified, Resource = targetRes, FieldDiffs = diffs\<rparr>]
                 else []))
       (range_map (rangeModified env) baseIndex))"

definition Compare :: "CompareEnv \<Rightarrow> ResourceSnapshot \<Rightarrow> ResourceSnapshot \<Rightarrow> DriftReport" where
  "Compare env base target =
     (let baseIndex = indexResources (Resources base);
          targetIndex = indexResources (Resources target);
          entries = sortEntries
            (removedEntries env baseIndex targetIndex @
             addedEntries env baseIndex targetIndex @
             modifiedEntries env baseIndex targetIndex);
          summary = fold countEntry entries
            \<lparr>TotalResources = int (length targetIndex), AddedResources = 0,
              RemovedResources = 0, ModifiedResources = 0, UnchangedResources = 0\<rparr>
      in \<lparr>Timestamp = now env,
          BaseRef = CommitHash (Metadata base),
          TargetRef = CommitHash (Metadata target),
          Summary = summary\<lparr>UnchangedResources :=
            int (length baseIndex) - RemovedResources summary - ModifiedResources summary\<rparr>,
          Entries = entries\<rparr>)"

definition HasDrift :: "DriftReport \<Rightarrow> bool" where
  "HasDrift report = (length (Entries report) > 0)"

text \<open>Reading a report: the resource a snapshot holds under a full name (the last one of
  the slice, as \<open>indexResources\<close> overwrites), the full names of a snapshot, the full
  names a report classifies under one drift type, and an entry up to the order of its field
  diffs.\<close>

definition resourceNamed :: "ResourceSnapshot \<Rightarrow> string \<Rightarrow> Resource option" where
  "resourceNamed s n = map_of (indexResources (Resources s)) n"


definition entriesOfType :: "DriftType \<Rightarrow> DriftReport \<Rightarrow> DriftEntry list" where
  "entriesOfType t report = filter (\<lambda>e. Type e = t) (Entries report)"

definition identitiesOfType :: "DriftType \<Rightarrow> DriftReport \<Rightarrow> string multiset" where
  "identitiesOfType t report = image_mset (\<lambda>e. FullName (Resource e)) (mset (entriesOfType t report))"

definition entryView :: "DriftEntry \<Rightarrow> DriftType \<times> Resource \<times> FieldDiff multiset" where
  "entryView e = (Type e, Resource e, mset (FieldDiffs e))"

definition isEmptyMap :: "'v gomap \<Rightarrow> bool" where
  "isEmptyMap m = (m = None \<or> m = Some [])"

subsection \<open>The field comparison in the words of the specification\<close>





subsection \<open>Sample inputs\<close>

definition emptyResource :: Resource where
  "emptyResource = \<lparr>APIVersion = [], Kind = [], Namespace = [], Name = [], Labels = None,
     Annotations = None, Spec = None, Data = None, Raw = None\<rparr>"

definition emptyMetadata :: SnapshotMetadata where
  "emptyMetadata = \<lparr>SnapshotMetadata.Timestamp = 0, ClusterName = [], Context = [],
     ResourceCount = 0, Namespaces = [], CommitHash = []\<rparr>"

definition nginx3 :: Resource where
  "nginx3 = emptyResource\<lparr>Kind := ''Deployment'', Namespace := ''default'', Name := ''nginx'',
     Spec := Some [(''replicas'', VInt 3), (''template'', VMap [(''image'', VStr ''a'')])]\<rparr>"

definition nginx5 :: Resource where
  "nginx5 = emptyResource\<lparr>Kind := ''Deployment'', Namespace := ''default'', Name := ''nginx'',
     Spec := Some [(''replicas'', VInt 5), (''template'', VMap [(''image'', VStr ''b'')])]\<rparr>"

definition oldSvc :: Resource where
  "oldSvc = emptyResource\<lparr>Kind := ''Service'', Namespace := ''default'', Name := ''old-svc''\<rparr>"

definition newSvc :: Resource where
  "newSvc = emptyResource\<lparr>Kind := ''Service'', Namespace := ''default'', Name := ''new-svc''\<rparr>"

definition snapA :: ResourceSnapshot where
  "snapA = \<lparr>Metadata = emptyMetadata, Resources = [nginx3, oldSvc]\<rparr>"

definition snapB :: ResourceSnapshot where
  "snapB = \<lparr>Metadata = emptyMetadata, Resources = [newSvc, nginx5]\<rparr>"




text \<open>Three environments: maps iterated in list order at clock reading 1000, the same
  order at clock reading 2000, and the reverse order at clock reading 1000.\<close>

definition envFwd :: CompareEnv where
  "envFwd = \<lparr>now = 1000, rangeRemoved = (\<lambda>ks. ks), rangeAdded = (\<lambda>ks. ks),
     rangeModified = (\<lambda>ks. ks), rangeAllKeys = (\<lambda>prefix ks. ks)\<rparr>"

definition envLater :: CompareEnv where
  "envLater = envFwd\<lparr>now := 2000\<rparr>"

definition envRev :: CompareEnv where
  "envRev = \<lparr>now = 1000, rangeRemoved = rev, rangeAdded = rev,
     rangeModified = rev, rangeAllKeys = (\<lambda>prefix. rev)\<rparr>"

text \<open>Two snapshots of one ConfigMap that differ only in its labels: nil on one side, an
  empty non-nil map on the other; and two that differ in the same way in \<open>spec\<close>.\<close>

definition cmNil :: Resource where
  "cmNil = emptyResource\<lparr>Kind := ''ConfigMap'', Namespace := ''default'', Name := ''cfg''\<rparr>"

definition snapNilMaps :: ResourceSnapshot where
  "snapNilMaps = \<lparr>Metadata = emptyMetadata, Resources = [cmNil]\<rparr>"

definition snapEmptyLabels :: ResourceSnapshot where
  "snapEmptyLabels = \<lparr>Metadata = emptyMetadata, Resources = [cmNil\<lparr>Labels := Some []\<rparr>]\<rparr>"

definition snapEmptySpec :: ResourceSnapshot where
  "snapEmptySpec = \<lparr>Metadata = emptyMetadata, Resources = [cmNil\<lparr>Spec := Some []\<rparr>]\<rparr>"

section \<open>Errors\<close>

text \<open>A Go \<open>error\<close> value: a message, a message wrapped around a cause
  (\<open>fmt.Errorf("...: %w", err)\<close>), or a run-time panic.\<close>

datatype error = Err string | Wrap string error | Panic string

section \<open>The collector\<close>

record SnapshotConfig =
  OutputDir :: string
  ResourceTypes :: "string list"
  Namespaces :: "string list"
  ExcludeNamespaces :: "string list"
  StripFields :: "string list"

record GitConfig =
  AuthorName :: string
  AuthorEmail :: string
  CommitMessagePrefix :: string
  Branch :: string

record Config =
  Kubeconfig :: string
  Context :: string
  Snapshot :: SnapshotConfig
  Git :: GitConfig

text \<open>A \<open>schema.GroupVersionResource\<close> is the triple (group, version, resource).\<close>

type_synonym GroupVersionResource = "string \<times> string \<times> string"

definition resourceMapping :: "(string \<times> GroupVersionResource) list" where
  "resourceMapping =
    [(''deployments'', (''apps'', ''v1'', ''deployments'')),
     (''statefulsets'', (''apps'', ''v1'', ''statefulsets'')),
     (''daemonsets'', (''apps'', ''v1'', ''daemonsets'')),
     (''services'', ('''', ''v1'', ''services'')),
     (''configmaps'', ('''', ''v1'', ''configmaps'')),
     (''secrets'', ('''', ''v1'', ''secrets'')),
     (''persistentvolumeclaims'', ('''', ''v1'', ''persistentvolumeclaims'')),
     (''serviceaccounts'', ('''', ''v1'', ''serviceaccounts'')),
     (''ingresses'', (''networking.k8s.io'', ''v1'', ''ingresses'')),
     (''networkpolicies'', (''networking.k8s.io'', ''v1'', ''networkpolicies'')),
     (''cronjobs'', (''batch'', ''v1'', ''cronjobs'')),
     (''roles'', (''rbac.authorization.k8s.io'', ''v1'', ''roles'')),
     (''rolebindings'', (''rbac.authorization.k8s.io'', ''v1'', ''rolebindings'')),
     (''clusterroles'', (''rbac.authorization.k8s.io'', ''v1'', ''clusterroles'')),
     (''clusterrolebindings'', (''rbac.authorization.k8s.io'', ''v1'', ''clusterrolebindings''))]"

text \<open>What \<open>Collect\<close> takes from its environment: the clock, the cluster name that
  \<open>getClusterName\<close> reads from the kubeconfig, the outcome of \<open>collectResource\<close> for each
  group-version-resource (the listing of the cluster through the Kubernetes client, an
  error or the listed resources), and the order in which \<open>range namespacesSet\<close> visits
  the observed namespaces.\<close>

record CollectEnv =
  collectClock :: int
  getClusterName :: string
  collectResource :: "GroupVersionResource \<Rightarrow> error + Resource list"
  rangeNamespaces :: "string list \<Rightarrow> string list"

fun inNamespaceList :: "string list \<Rightarrow> string \<Rightarrow> bool" where
  "inNamespaceList [] ns = False"
| "inNamespaceList (n # rest) ns = (if ns = n then True else inNamespaceList rest ns)"

definition shouldExcludeNamespace :: "Config \<Rightarrow> string \<Rightarrow> bool" where
  "shouldExcludeNamespace c ns = inNamespaceList (ExcludeNamespaces (Snapshot c)) ns"

definition shouldIncludeNamespace :: "Config \<Rightarrow> string \<Rightarrow> bool" where
  "shouldIncludeNamespace c ns = inNamespaceList (SnapshotConfig.Namespaces (Snapshot c)) ns"

text \<open>The state of the loops of \<open>Collect\<close>: the resources appended so far and the keys of
  \<open>namespacesSet\<close>.\<close>

definition collectOne :: "Config \<Rightarrow> Resource \<Rightarrow> Resource list \<times> string list \<Rightarrow> Resource list \<times> string list" where
  "collectOne c res acc =
     (if shouldExcludeNamespace c (Namespace res) then acc
      else if length (SnapshotConfig.Namespaces (Snapshot c)) > 0 \<and>
              \<not> shouldIncludeNamespace c (Namespace res) then acc
      else (fst acc @ [res],
            if Namespace res \<noteq> [] then List.insert (Namespace res) (snd acc) else snd acc))"

definition collectType :: "CollectEnv \<Rightarrow> Config \<Rightarrow> string \<Rightarrow> Resource list \<times> string list \<Rightarrow> Resource list \<times> string list" where
  "collectType env c resType acc =
     (case map_of resourceMapping resType of
        None \<Rightarrow> acc
      | Some gvr \<Rightarrow>
          (case collectResource env gvr of
             Inl err \<Rightarrow> acc
           | Inr resources \<Rightarrow> fold (collectOne c) resources acc))"

text \<open>\<open>Collect\<close> returns a nil error on every path, so the model returns the snapshot.\<close>

definition Collect :: "CollectEnv \<Rightarrow> Config \<Rightarrow> ResourceSnapshot" where
  "Collect env c =
     (let (resources, namespacesSet) = fold (collectType env c) (ResourceTypes (Snapshot c)) ([], [])
      in \<lparr>Metadata =
            \<lparr>SnapshotMetadata.Timestamp = collectClock env,
             ClusterName = getClusterName env,
             Context = Config.Context c,
             ResourceCount = int (length resources),
             Namespaces = rangeNamespaces env namespacesSet,
             CommitHash = []\<rparr>,
          Resources = resources\<rparr>)"

subsection \<open>Sample cluster\<close>

definition clusterRoleAdmin :: Resource where
  "clusterRoleAdmin = emptyResource\<lparr>Kind := ''ClusterRole'', Name := ''admin''\<rparr>"

definition sampleConfig :: Config where
  "sampleConfig =
     \<lparr>Kubeconfig = ''/root/.kube/config'', Context = ''kind'',
      Snapshot = \<lparr>OutputDir = ''./infra-snapshots'',
        ResourceTypes = [''deployments'', ''clusterroles'', ''widgets''],
        Namespaces = [''default''],
        ExcludeNamespaces = [''kube-system'', ''kube-public'', ''kube-node-lease''],
        StripFields = []\<rparr>,
      Git = \<lparr>AuthorName = ''GitOps-Time-Machine'', AuthorEmail = ''gitops-tm@automated'',
        CommitMessagePrefix = ''[snapshot]'', Branch = ''main''\<rparr>\<rparr>"

definition sampleCluster :: CollectEnv where
  "sampleCluster =
     \<lparr>collectClock = 1000, getClusterName = ''kind-cluster'',
      collectResource = (\<lambda>gvr.
        if gvr = (''apps'', ''v1'', ''deployments'') then
          Inr [nginx3, nginx3\<lparr>Namespace := ''kube-system''\<rparr>, nginx3\<lparr>Namespace := ''other''\<rparr>]
        else if gvr = (''rbac.authorization.k8s.io'', ''v1'', ''clusterroles'') then
          Inr [clusterRoleAdmin]
        else Inl (Wrap ''failed to list'' (Err ''forbidden''))),
      rangeNamespaces = (\<lambda>ks. ks)\<rparr>"

section \<open>The snapshotter\<close>

text \<open>The output directory on disk: \<^const>\<open>None\<close> when it does not exist, else its entries by
  name, each a file with its content or a directory with its own entries.\<close>

datatype fsnode = File string | Dir "(string \<times> fsnode) list"

type_synonym directory = "(string \<times> fsnode) list option"

text \<open>
  What the snapshotter takes from its environment. The three calls of \<open>cleanDirectory\<close>
  on the output directory itself may fail (\<open>Some\<close> error) or take their effect: \<open>os.MkdirAll\<close>
  creates the directory when it is missing, \<open>os.ReadDir\<close> lists the entry names sorted by
  name, \<open>os.RemoveAll\<close> removes one entry with all it contains. The YAML encoder and
  \<open>strings.ToLower\<close> are functions of the environment. Below the output directory the
  effect of \<open>os.MkdirAll\<close> and \<open>os.WriteFile\<close> depends on how \<open>filepath.Join\<close> resolves the
  path elements built from namespace, kind and name; both are parameters that take the
  path elements after the output directory.
\<close>

record SnapshotterEnv =
  mkdirAllOutputDir :: "error option"
  readDirOutputDir :: "error option"
  removeAllEntry :: "string \<Rightarrow> error option"
  marshalMetadata :: "SnapshotMetadata \<Rightarrow> error + string"
  marshalRaw :: "(string \<times> gvalue) list \<Rightarrow> error + string"
  marshalResource :: "Resource \<Rightarrow> error + string"
  toLower :: "string \<Rightarrow> string"
  osMkdirAll :: "string list \<Rightarrow> directory \<Rightarrow> error option \<times> directory"
  osWriteFile :: "string list \<Rightarrow> string \<Rightarrow> directory \<Rightarrow> error option \<times> directory"

definition dirEntries :: "directory \<Rightarrow> (string \<times> fsnode) list" where
  "dirEntries d = (case d of None \<Rightarrow> [] | Some es \<Rightarrow> es)"

definition readDir :: "(string \<times> fsnode) list \<Rightarrow> string list" where
  "readDir es = sort (remdups (map fst es))"

definition removeAll :: "string \<Rightarrow> (string \<times> fsnode) list \<Rightarrow> (string \<times> fsnode) list" where
  "removeAll name es = filter (\<lambda>e. fst e \<noteq> name) es"

text \<open>The loop of \<open>cleanDirectory\<close> over the entries read; it returns at the first entry
  that cannot be removed, the entries before it being gone.\<close>

fun cleanEntries :: "SnapshotterEnv \<Rightarrow> string \<Rightarrow> string list \<Rightarrow> (string \<times> fsnode) list \<Rightarrow> error option \<times> (string \<times> fsnode) list" where
  "cleanEntries env outputDir [] es = (None, es)"
| "cleanEntries env outputDir (name # rest) es =
     (if name = ''.git'' then cleanEntries env outputDir rest es
      else
        (case removeAllEntry env name of
           Some err \<Rightarrow> (Some (Wrap (''failed to remove '' @ outputDir @ ''/'' @ name) err), es)
         | None \<Rightarrow> cleanEntries env outputDir rest (removeAll name es)))"

definition cleanDirectory :: "SnapshotterEnv \<Rightarrow> string \<Rightarrow> directory \<Rightarrow> error option \<times> directory" where
  "cleanDirectory env outputDir d =
     (case mkdirAllOutputDir env of
        Some err \<Rightarrow> (Some err, d)
      | None \<Rightarrow>
          (case readDirOutputDir env of
             Some err \<Rightarrow> (Some err, Some (dirEntries d))
           | None \<Rightarrow>
               (let (err, es) = cleanEntries env outputDir (readDir (dirEntries d)) (dirEntries d)
                in (err, Some es))))"

definition sanitizeFilename :: "string \<Rightarrow> string" where
  "sanitizeFilename name =
     map (\<lambda>c. if c \<in> set [CHR ''/'', CHR 0x5C, CHR '':'', CHR ''*'', CHR ''?'', CHR 0x22,
                          CHR ''<'', CHR ''>'', CHR ''|'']
              then CHR ''_'' else c) name"

definition writeMetadata :: "SnapshotterEnv \<Rightarrow> ResourceSnapshot \<Rightarrow> directory \<Rightarrow> error option \<times> directory" where
  "writeMetadata env snapshot d =
     (case marshalMetadata env (Metadata snapshot) of
        Inl err \<Rightarrow> (Some err, d)
      | Inr data \<Rightarrow> osWriteFile env [''_metadata.yaml''] data d)"

definition writeResource :: "SnapshotterEnv \<Rightarrow> Resource \<Rightarrow> directory \<Rightarrow> error option \<times> directory" where
  "writeResource env resource d =
     (let dir = (if Namespace resource = [] then [''_cluster'', toLower env (Kind resource)]
                 else [Namespace resource, toLower env (Kind resource)])
      in case osMkdirAll env dir d of
           (Some err, d1) \<Rightarrow> (Some (Wrap ''failed to create directory'' err), d1)
         | (None, d1) \<Rightarrow>
             (let filename = sanitizeFilename (Resource.Name resource) @ ''.yaml'';
                  marshalled = (case Raw resource of
                                  Some raw \<Rightarrow> marshalRaw env raw
                                | None \<Rightarrow> marshalResource env resource)
              in case marshalled of
                   Inl err \<Rightarrow> (Some (Wrap ''failed to marshal resource'' err), d1)
                 | Inr data \<Rightarrow> osWriteFile env (dir @ [filename]) data d1))"

text \<open>The part of \<open>Write\<close> after the clean step: the metadata file, then one file for each
  resource, a resource that cannot be written being skipped.\<close>

definition repopulate :: "SnapshotterEnv \<Rightarrow> ResourceSnapshot \<Rightarrow> directory \<Rightarrow> error option \<times> directory" where
  "repopulate env snapshot d =
     (case writeMetadata env snapshot d of
        (Some err, d1) \<Rightarrow> (Some (Wrap ''failed to write metadata'' err), d1)
      | (None, d1) \<Rightarrow>
          (None, fold (\<lambda>resource d'. snd (writeResource env resource d')) (Resources snapshot) d1))"

definition Write :: "SnapshotterEnv \<Rightarrow> string \<Rightarrow> ResourceSnapshot \<Rightarrow> directory \<Rightarrow> error option \<times> directory" where
  "Write env outputDir snapshot d =
     (case cleanDirectory env outputDir d of
        (Some err, d1) \<Rightarrow> (Some (Wrap ''failed to clean output directory'' err), d1)
      | (None, d1) \<Rightarrow> repopulate env snapshot d1)"

subsection \<open>Sample directory\<close>

text \<open>An environment without failures whose writes below the output directory record
  each file under its joined path, and the directory of the test
  \<open>TestCleanDirectory_PreservesGit\<close> with one more old manifest.\<close>

fun joinPath :: "string list \<Rightarrow> string" where
  "joinPath [] = []"
| "joinPath [a] = a"
| "joinPath (a # b # rest) = a @ ''/'' @ joinPath (b # rest)"

definition sampleDisk :: SnapshotterEnv where
  "sampleDisk =
     \<lparr>mkdirAllOutputDir = None, readDirOutputDir = None, removeAllEntry = (\<lambda>name. None),
      marshalMetadata = (\<lambda>m. Inr ''metadata''), marshalRaw = (\<lambda>raw. Inr ''raw''),
      marshalResource = (\<lambda>r. Inr ''resource''), toLower = (\<lambda>s. s),
      osMkdirAll = (\<lambda>path d. (None, d)),
      osWriteFile = (\<lambda>path data d. (None, Some (dirEntries d @ [(joinPath path, File data)])))\<rparr>"

definition gitDir :: fsnode where
  "gitDir = Dir [(''HEAD'', File ''ref: refs/heads/main'')]"

definition oldTree :: directory where
  "oldTree = Some [(''old-file.yaml'', File ''old''), (''.git'', gitDir),
     (''default'', Dir [(''service'', Dir [(''old-svc.yaml'', File ''kind: Service'')])])]"

section \<open>The version store\<close>

text \<open>
  Modelled from the spec: the repository library behind the version store (go-git) is not
  under \<open>src/\<close>. Its operations that \<open>versioner.go\<close> calls are modelled after the contract
  of section 4.3 on a repository with single-parent history: a commit object carries its
  hash (the 40 hexadecimal characters of \<open>Hash.String()\<close>), its parent, author and committer
  signatures, message and tree; the repository has its commit objects, its branches (name
  to hash), a head that is on a branch or detached at a commit, a working tree and an
  index. A tree maps file paths to contents. Each of these calls can fail with an error
  of the environment. The checkout of a commit hash is not modelled: the contract says
  neither when it fails nor what a failed checkout leaves of the repository, so it is a
  function of the environment.
\<close>

type_synonym tree = "(string \<times> string) list"

record Signature =
  Name :: string
  Email :: string
  When :: int

record CommitObject =
  Hash :: string
  Parent :: "string option"
  Author :: Signature
  Committer :: Signature
  Message :: string
  TreeFiles :: tree

datatype Head = OnBranch string | Detached string

record Repository =
  head :: Head
  branches :: "(string \<times> string) list"
  objects :: "CommitObject list"
  worktree :: tree
  index :: tree

datatype GitCall = CallWorktree | CallAdd | CallStatus | CallCommit | CallCommitObject
  | CallLog | CallForEach | CallCheckoutBranch

text \<open>The environment of the version store: which library calls fail and how, the hash
  the library computes for a new commit object, what
  \<open>w.Checkout(&git.CheckoutOptions{Hash: plumbing.NewHash(commitHash)})\<close> returns and
  leaves of the repository, and the formatting functions of the standard library.\<close>

record GitEnv =
  fails :: "GitCall \<Rightarrow> error option"
  hashCommit :: "CommitObject \<Rightarrow> string"
  checkoutHash :: "string \<Rightarrow> Repository \<Rightarrow> error option \<times> Repository"
  formatRFC3339 :: "int \<Rightarrow> string"
  formatInt :: "int \<Rightarrow> string"

definition headCommit :: "Repository \<Rightarrow> string option" where
  "headCommit repo =
     (case head repo of Detached h \<Rightarrow> Some h | OnBranch b \<Rightarrow> map_of (branches repo) b)"

definition findObject :: "Repository \<Rightarrow> string \<Rightarrow> CommitObject option" where
  "findObject repo h = find (\<lambda>c. Hash c = h) (objects repo)"

definition headTree :: "Repository \<Rightarrow> tree" where
  "headTree repo =
     (case headCommit repo of
        None \<Rightarrow> []
      | Some h \<Rightarrow> (case findObject repo h of None \<Rightarrow> [] | Some c \<Rightarrow> TreeFiles c))"

text \<open>\<open>w.AddWithOptions(All)\<close> stages the working tree; \<open>w.Status()\<close> with \<open>IsClean\<close> tells
  whether index and working tree are the tree of the head commit (the empty tree before
  the first commit).\<close>

definition gitAddAll :: "GitEnv \<Rightarrow> Repository \<Rightarrow> error option \<times> Repository" where
  "gitAddAll env repo =
     (case fails env CallAdd of
        Some err \<Rightarrow> (Some err, repo)
      | None \<Rightarrow> (None, repo\<lparr>index := worktree repo\<rparr>))"

definition gitStatusIsClean :: "GitEnv \<Rightarrow> Repository \<Rightarrow> error + bool" where
  "gitStatusIsClean env repo =
     (case fails env CallStatus of
        Some err \<Rightarrow> Inl err
      | None \<Rightarrow> Inr (index repo = headTree repo \<and> worktree repo = index repo))"

text \<open>\<open>w.Commit\<close> stores a commit object of the index with the head commit as parent and the
  author also as committer, and moves the branch of the head (or a detached head) to
  it.\<close>

definition gitCommit :: "GitEnv \<Rightarrow> string \<Rightarrow> Signature \<Rightarrow> Repository \<Rightarrow> (error + string) \<times> Repository" where
  "gitCommit env message author repo =
     (case fails env CallCommit of
        Some err \<Rightarrow> (Inl err, repo)
      | None \<Rightarrow>
          (let c0 = \<lparr>Hash = [], Parent = headCommit repo, Author = author, Committer = author,
                     Message = message, TreeFiles = index repo\<rparr>;
               h = hashCommit env c0;
               repo1 = repo\<lparr>objects := c0\<lparr>Hash := h\<rparr> # objects repo\<rparr>
           in (Inr h,
               case head repo of
                 OnBranch b \<Rightarrow> repo1\<lparr>branches := AList.update b h (branches repo)\<rparr>
               | Detached d \<Rightarrow> repo1\<lparr>head := Detached h\<rparr>)))"

definition gitCommitObject :: "GitEnv \<Rightarrow> Repository \<Rightarrow> string \<Rightarrow> error + CommitObject" where
  "gitCommitObject env repo h =
     (case fails env CallCommitObject of
        Some err \<Rightarrow> Inl err
      | None \<Rightarrow> (case findObject repo h of None \<Rightarrow> Inl (Err ''object not found'') | Some c \<Rightarrow> Inr c))"

text \<open>\<open>repo.Log\<close> resolves the head, failing on a repository without commits; the iterator
  then yields the head commit and its ancestors (\<open>n\<close> bounds the length of the chain by the
  number of objects), failing on a missing object.\<close>

definition gitLog :: "GitEnv \<Rightarrow> Repository \<Rightarrow> error + string" where
  "gitLog env repo =
     (case fails env CallLog of
        Some err \<Rightarrow> Inl err
      | None \<Rightarrow> (case headCommit repo of None \<Rightarrow> Inl (Err ''reference not found'') | Some h \<Rightarrow> Inr h))"

fun ancestry :: "nat \<Rightarrow> Repository \<Rightarrow> string \<Rightarrow> error + CommitObject list" where
  "ancestry 0 repo h = Inr []"
| "ancestry (Suc n) repo h =
     (case findObject repo h of
        None \<Rightarrow> Inl (Err ''object not found'')
      | Some c \<Rightarrow>
          (case Parent c of
             None \<Rightarrow> Inr [c]
           | Some p \<Rightarrow> (case ancestry n repo p of Inl err \<Rightarrow> Inl err | Inr cs \<Rightarrow> Inr (c # cs))))"

definition gitForEach :: "GitEnv \<Rightarrow> Repository \<Rightarrow> string \<Rightarrow> error + CommitObject list" where
  "gitForEach env repo h =
     (case fails env CallForEach of
        Some err \<Rightarrow> Inl err
      | None \<Rightarrow> ancestry (length (objects repo)) repo h)"

text \<open>\<open>w.Checkout\<close> of a branch puts the head on the branch and makes the tree of its
  tip the working tree, a missing branch being an error.\<close>

definition gitCheckoutBranch :: "GitEnv \<Rightarrow> string \<Rightarrow> Repository \<Rightarrow> error option \<times> Repository" where
  "gitCheckoutBranch env b repo =
     (case fails env CallCheckoutBranch of
        Some err \<Rightarrow> (Some err, repo)
      | None \<Rightarrow>
          (case map_of (branches repo) b of
             None \<Rightarrow> (Some (Err ''reference not found''), repo)
           | Some h \<Rightarrow>
               (case findObject repo h of
                  None \<Rightarrow> (Some (Err ''object not found''), repo)
                | Some c \<Rightarrow>
                    (None, repo\<lparr>head := OnBranch b, worktree := TreeFiles c, index := TreeFiles c\<rparr>))))"

subsection \<open>The versioner\<close>

text \<open>\<open>Commit\<close> returns the hash or the error, and the repository it leaves. The hash
  logged as \<open>hash[:8]\<close> is the 40 characters of \<open>Hash.String()\<close>.\<close>

definition Commit :: "GitEnv \<Rightarrow> GitConfig \<Rightarrow> SnapshotMetadata \<Rightarrow> Repository \<Rightarrow> (error + string) \<times> Repository" where
  "Commit env config metadata repo =
     (case fails env CallWorktree of
        Some err \<Rightarrow> (Inl (Wrap ''failed to get worktree'' err), repo)
      | None \<Rightarrow>
     (case gitAddAll env repo of
        (Some err, repo1) \<Rightarrow> (Inl (Wrap ''failed to stage changes'' err), repo1)
      | (None, repo1) \<Rightarrow>
     (case gitStatusIsClean env repo1 of
        Inl err \<Rightarrow> (Inl (Wrap ''failed to get status'' err), repo1)
      | Inr clean \<Rightarrow>
          if clean then (Inr [], repo1)
          else
            (let message = CommitMessagePrefix config @ '' '' @
                   formatRFC3339 env (SnapshotMetadata.Timestamp metadata) @
                   [CHR '' '', CHR 0xE2, CHR 0x80, CHR 0x94, CHR '' ''] @
                   formatInt env (ResourceCount metadata) @ '' resources across '' @
                   formatInt env (int (length (SnapshotMetadata.Namespaces metadata))) @
                   '' namespaces'';
                 author = \<lparr>Name = AuthorName config, Email = AuthorEmail config,
                            When = SnapshotMetadata.Timestamp metadata\<rparr>
             in case gitCommit env message author repo1 of
                  (Inl err, repo2) \<Rightarrow> (Inl (Wrap ''failed to create commit'' err), repo2)
                | (Inr commit, repo2) \<Rightarrow>
                    (case gitCommitObject env repo2 commit of
                       Inl err \<Rightarrow> (Inl (Wrap ''failed to get commit object'' err), repo2)
                     | Inr commitObj \<Rightarrow> (Inr (Hash commitObj), repo2))))))"

definition CheckoutAt :: "GitEnv \<Rightarrow> string \<Rightarrow> Repository \<Rightarrow> error option \<times> Repository" where
  "CheckoutAt env commitHash repo =
     (case fails env CallWorktree of
        Some err \<Rightarrow> (Some (Wrap ''failed to get worktree'' err), repo)
      | None \<Rightarrow> checkoutHash env commitHash repo)"

definition CheckoutBranch :: "GitEnv \<Rightarrow> GitConfig \<Rightarrow> Repository \<Rightarrow> error option \<times> Repository" where
  "CheckoutBranch env config repo =
     (case fails env CallWorktree of
        Some err \<Rightarrow> (Some (Wrap ''failed to get worktree'' err), repo)
      | None \<Rightarrow> gitCheckoutBranch env (Branch config) repo)"

text \<open>The callback of \<open>FindCommitByTime\<close> on one commit, on the pair \<open>(bestHash, bestTime)\<close>;
  \<open>bestTime\<close> starts as the zero time and is read only once \<open>bestHash\<close> is set.\<close>

definition findStep :: "int \<Rightarrow> CommitObject \<Rightarrow> string \<times> int \<Rightarrow> string \<times> int" where
  "findStep target c best =
     (let commitTime = When (Author c)
      in if commitTime < target \<or> commitTime = target then
           (if fst best = [] \<or> commitTime > snd best then (Hash c, commitTime) else best)
         else best)"

definition FindCommitByTime :: "GitEnv \<Rightarrow> Repository \<Rightarrow> int \<Rightarrow> error + string" where
  "FindCommitByTime env repo target =
     (case gitLog env repo of
        Inl err \<Rightarrow> Inl (Wrap ''failed to get log'' err)
      | Inr iter \<Rightarrow>
          (case gitForEach env repo iter of
             Inl err \<Rightarrow> Inl err
           | Inr commits \<Rightarrow>
               (let (bestHash, bestTime) = fold (findStep target) commits ([], 0)
                in if bestHash = [] then
                     Inl (Err (''no snapshot found at or before '' @ formatRFC3339 env target))
                   else Inr bestHash)))"

text \<open>The invariant of the scan: after the commits \<open>seen\<close>, the pair \<open>best\<close> is unset and
  no commit seen is at or before the target, or it is a commit seen with the largest
  author time at or before the target.\<close>

definition bestSoFar :: "int \<Rightarrow> CommitObject list \<Rightarrow> string \<times> int \<Rightarrow> bool" where
  "bestSoFar t seen best =
     ((fst best = [] \<and> (\<forall>c \<in> set seen. t < When (Author c))) \<or>
      (\<exists>c \<in> set seen. best = (Hash c, When (Author c)) \<and> When (Author c) \<le> t \<and>
         (\<forall>c' \<in> set seen. When (Author c') \<le> t \<longrightarrow> When (Author c') \<le> When (Author c))))"

section \<open>The time-travel engine\<close>

text \<open>\<open>Read\<close> of the snapshotter decodes the files of the working tree; it is a function of
  the environment. The deferred \<open>CheckoutBranch\<close> runs on every return after the checkout
  succeeded (a failed \<open>CheckoutAt\<close> returns before the \<open>defer\<close> statement), and its error is
  only logged. \<open>commitHash[:8]\<close> panics on a shorter string.\<close>

definition SnapshotByCommit ::
  "GitEnv \<Rightarrow> (tree \<Rightarrow> error + ResourceSnapshot) \<Rightarrow> GitConfig \<Rightarrow> string \<Rightarrow> Repository \<Rightarrow>
     (error + ResourceSnapshot) \<times> Repository" where
  "SnapshotByCommit env Read config commitHash repo =
     (if length commitHash < 8 then (Inl (Panic ''slice bounds out of range''), repo)
      else
        (case CheckoutAt env commitHash repo of
           (Some err, repo1) \<Rightarrow> (Inl (Wrap (''failed to checkout commit '' @ commitHash) err), repo1)
         | (None, repo1) \<Rightarrow>
             (let result =
                    (case Read (worktree repo1) of
                       Inl err \<Rightarrow> Inl (Wrap (''failed to read snapshot at commit '' @ commitHash) err)
                     | Inr snapshot \<Rightarrow>
                         Inr (snapshot\<lparr>Metadata := (Metadata snapshot)\<lparr>CommitHash := commitHash\<rparr>\<rparr>));
                  repo2 = snd (CheckoutBranch env config repo1)
              in (result, repo2))))"

definition SnapshotAt ::
  "GitEnv \<Rightarrow> (tree \<Rightarrow> error + ResourceSnapshot) \<Rightarrow> GitConfig \<Rightarrow> int \<Rightarrow> Repository \<Rightarrow>
     (error + ResourceSnapshot) \<times> Repository" where
  "SnapshotAt env Read config target repo =
     (case FindCommitByTime env repo target of
        Inl err \<Rightarrow> (Inl (Wrap (''failed to find snapshot at '' @ formatRFC3339 env target) err), repo)
      | Inr commitHash \<Rightarrow> SnapshotByCommit env Read config commitHash repo)"

subsection \<open>Sample repository\<close>

text \<open>Three snapshots committed at the author times 100, 200 and 300 on one branch, and
  an environment in which no library call fails and the checkout of the hash of a stored
  commit detaches the head at it and makes its tree the working tree.\<close>

definition sampleCheckoutHash :: "string \<Rightarrow> Repository \<Rightarrow> error option \<times> Repository" where
  "sampleCheckoutHash h repo =
     (case findObject repo h of
        None \<Rightarrow> (Some (Err ''object not found''), repo\<lparr>head := Detached h\<rparr>)
      | Some c \<Rightarrow>
          (None, repo\<lparr>head := Detached h, worktree := TreeFiles c, index := TreeFiles c\<rparr>))"

definition sampleGit :: GitEnv where
  "sampleGit = \<lparr>fails = (\<lambda>call. None), hashCommit = (\<lambda>c. replicate 40 (CHR ''4'')),
     checkoutHash = sampleCheckoutHash,
     formatRFC3339 = (\<lambda>t. ''time''), formatInt = (\<lambda>n. ''n'')\<rparr>"

definition signatureAt :: "int \<Rightarrow> Signature" where
  "signatureAt t = \<lparr>Name = ''GitOps-Time-Machine'', Email = ''gitops-tm@automated'', When = t\<rparr>"

definition commit1 :: CommitObject where
  "commit1 = \<lparr>Hash = replicate 40 (CHR ''1''), Parent = None, Author = signatureAt 100,
     Committer = signatureAt 100, Message = ''[snapshot] one'',
     TreeFiles = [(''_metadata.yaml'', ''one'')]\<rparr>"

definition commit2 :: CommitObject where
  "commit2 = \<lparr>Hash = replicate 40 (CHR ''2''), Parent = Some (replicate 40 (CHR ''1'')),
     Author = signatureAt 200, Committer = signatureAt 200, Message = ''[snapshot] two'',
     TreeFiles = [(''_metadata.yaml'', ''two'')]\<rparr>"

definition commit3 :: CommitObject where
  "commit3 = \<lparr>Hash = replicate 40 (CHR ''3''), Parent = Some (replicate 40 (CHR ''2'')),
     Author = signatureAt 300, Committer = signatureAt 300, Message = ''[snapshot] three'',
     TreeFiles = [(''_metadata.yaml'', ''three'')]\<rparr>"

definition repoOn :: "string \<Rightarrow> Repository" where
  "repoOn b = \<lparr>head = OnBranch b, branches = [(b, replicate 40 (CHR ''3''))],
     objects = [commit3, commit2, commit1],
     worktree = [(''_metadata.yaml'', ''three'')], index = [(''_metadata.yaml'', ''three'')]\<rparr>"


section \<open>Properties of the analyzer\<close>

lemma set_update_subset: "set (AList.update k v al) \<subseteq> insert (k, v) (set al)"
  by (induction al) auto

lemma fold_update_invariant:
  "distinct (map fst acc) \<Longrightarrow> (\<forall>(n, r) \<in> set acc. FullName r = n) \<Longrightarrow>
   distinct (map fst (fold (\<lambda>r index. AList.update (FullName r) r index) rs acc)) \<and>
   (\<forall>(n, r) \<in> set (fold (\<lambda>r index. AList.update (FullName r) r index) rs acc). FullName r = n) \<and>
   fst ` set (fold (\<lambda>r index. AList.update (FullName r) r index) rs acc) = fst ` set acc \<union> FullName ` set rs"
proof (induction rs arbitrary: acc)
  case Nil
  then show ?case by simp
next
  case (Cons r rs)
  have d: "distinct (map fst (AList.update (FullName r) r acc))"
    using Cons.prems(1) by (simp add: distinct_update)
  have k: "\<forall>(n, r') \<in> set (AList.update (FullName r) r acc). FullName r' = n"
    using Cons.prems(2) set_update_subset [of "FullName r" r acc] by auto
  have s: "fst ` set (AList.update (FullName r) r acc) = insert (FullName r) (fst ` set acc)"
    using dom_update [of "FullName r" r acc] by simp
  show ?case
    using Cons.IH [OF d k] s by auto
qed

lemma distinct_indexResources: "distinct (map fst (indexResources rs))"
  using fold_update_invariant [of "[]" rs] by (simp add: indexResources_def)

lemma indexResources_FullName: "(n, r) \<in> set (indexResources rs) \<Longrightarrow> FullName r = n"
  using fold_update_invariant [of "[]" rs] by (auto simp: indexResources_def)



lemma mset_map_filter:
  "mset (List.map_filter f xs) = image_mset (the \<circ> f) (filter_mset (\<lambda>x. f x \<noteq> None) (mset xs))"
  by (induction xs) (auto split: option.splits)

lemma map_filter_keys:
  "distinct (map fst al) \<Longrightarrow>
   List.map_filter (\<lambda>k. map_option (Pair k) (map_of al k)) (map fst al) = al"
proof (induction al)
  case Nil
  then show ?case by simp
next
  case (Cons p al)
  obtain k v where p: "p = (k, v)" by (cases p)
  have "List.map_filter (\<lambda>k'. map_option (Pair k') (map_of (p # al) k')) (map fst al)
      = List.map_filter (\<lambda>k'. map_option (Pair k') (map_of al k')) (map fst al)"
    unfolding List.map_filter_def using Cons.prems p
    by (intro arg_cong2 [where f = map] filter_cong map_cong refl) auto
  then show ?case
    using Cons p by simp
qed

lemma mset_range_map:
  assumes "valid_order ord" "distinct (map fst al)"
  shows "mset (range_map ord al) = mset al"
proof -
  let ?f = "\<lambda>k. map_option (Pair k) (map_of al k)"
  have "mset (ord (remdups (map fst al))) = mset (map fst al)"
    using assms by (simp add: valid_order_def distinct_remdups_id)
  then have "mset (List.map_filter ?f (ord (remdups (map fst al)))) = mset (List.map_filter ?f (map fst al))"
    by (simp only: mset_map_filter)
  then show ?thesis
    using map_filter_keys [OF assms(2)] by (simp add: range_map_def)
qed

lemma mset_concat_map:
  "mset (concat (map g xs)) = (\<Sum>x\<in>#mset xs. mset (g x))"
  by (induction xs) auto

lemma fold_countEntry:
  "fold countEntry es s =
     s\<lparr>AddedResources := AddedResources s + int (length (filter (\<lambda>e. Type e = DriftAdded) es)),
       RemovedResources := RemovedResources s + int (length (filter (\<lambda>e. Type e = DriftRemoved) es)),
       ModifiedResources := ModifiedResources s + int (length (filter (\<lambda>e. Type e = DriftModified) es))\<rparr>"
  by (induction es arbitrary: s) (auto simp: countEntry_def split: DriftType.splits)


lemma Type_removedEntries: "e \<in> set (removedEntries env bi ti) \<Longrightarrow> Type e = DriftRemoved \<and> FieldDiffs e = []"
  by (auto simp: removedEntries_def split: if_splits)

lemma Type_addedEntries: "e \<in> set (addedEntries env bi ti) \<Longrightarrow> Type e = DriftAdded \<and> FieldDiffs e = []"
  by (auto simp: addedEntries_def split: if_splits)

lemma Type_modifiedEntries: "e \<in> set (modifiedEntries env bi ti) \<Longrightarrow> Type e = DriftModified \<and> FieldDiffs e \<noteq> []"
  by (auto simp: modifiedEntries_def Let_def split: if_splits option.splits)











lemma set_Entries_Compare:
  "set (Entries (Compare env base target)) =
     set (removedEntries env (indexResources (Resources base)) (indexResources (Resources target))) \<union>
     set (addedEntries env (indexResources (Resources base)) (indexResources (Resources target))) \<union>
     set (modifiedEntries env (indexResources (Resources base)) (indexResources (Resources target)))"
  by (simp add: Compare_def Let_def sortEntries_def Un_assoc)

text \<open>
  C9. In every report of \<open>Compare\<close>, an entry of type MODIFIED carries a non-empty list of
  field diffs, and an entry of type ADDED or REMOVED carries an empty one.
\<close>

theorem Compare_fieldDiffs_by_type:
  "\<forall>e \<in> set (Entries (Compare env base target)).
     (Type e = DriftModified \<longrightarrow> FieldDiffs e \<noteq> []) \<and>
     (Type e = DriftAdded \<or> Type e = DriftRemoved \<longrightarrow> FieldDiffs e = [])"
  unfolding set_Entries_Compare
  by (auto dest: Type_removedEntries Type_addedEntries Type_modifiedEntries)

lemma valid_envFwd: "valid_env envFwd"
  by (simp add: valid_env_def valid_order_def envFwd_def)

lemma valid_envRev: "valid_env envRev"
  by (simp add: valid_env_def valid_order_def envRev_def)

lemma valid_envLater: "valid_env envLater"
  by (simp add: valid_env_def valid_order_def envLater_def envFwd_def)

theorem Compare_fieldDiffs_by_type_witness:
  "Type (Entries (Compare envFwd snapA snapB) ! 1) = DriftModified \<and>
   FieldDiffs (Entries (Compare envFwd snapA snapB) ! 1) \<noteq> [] \<and>
   Type (Entries (Compare envFwd snapA snapB) ! 0) = DriftAdded \<and>
   FieldDiffs (Entries (Compare envFwd snapA snapB) ! 0) = [] \<and>
   Type (Entries (Compare envFwd snapA snapB) ! 2) = DriftRemoved \<and>
   FieldDiffs (Entries (Compare envFwd snapA snapB) ! 2) = []"
proof -
  let ?es = "Entries (Compare envFwd snapA snapB)"
  have types: "map Type ?es = [DriftAdded, DriftModified, DriftRemoved]"
    by code_simp
  then have len: "length ?es = 3"
    using length_map [of Type ?es] by simp
  have t: "Type (?es ! 0) = DriftAdded" "Type (?es ! 1) = DriftModified" "Type (?es ! 2) = DriftRemoved"
    using types len nth_map [of _ ?es Type] by (metis nth_Cons_0 zero_less_numeral, 
      metis One_nat_def nth_Cons_0 nth_Cons_Suc one_less_numeral_iff semiring_norm(77),
      metis nth_Cons_0 nth_Cons_Suc numeral_2_eq_2 lessI numeral_3_eq_3)
  have mem: "?es ! 0 \<in> set ?es" "?es ! 1 \<in> set ?es" "?es ! 2 \<in> set ?es"
    using len by simp_all
  show ?thesis
    using Compare_fieldDiffs_by_type [of envFwd snapA snapB] mem t by auto
qed

declare deepCompareMap.simps [simp del]

lemma set_valid_order: "valid_order ord \<Longrightarrow> set (ord ks) = set ks"
  unfolding valid_order_def by (metis mset_eq_setD)

text \<open>The diffs of one key, as the body of the loop of \<open>deepCompareMap\<close> computes them.\<close>

lemma deepCompareMap_mset_order:
  assumes "\<forall>p. valid_order (ord1 p)" "\<forall>p. valid_order (ord2 p)"
  shows "mset (deepCompareMap ord1 prefix base target) = mset (deepCompareMap ord2 prefix base target)"
  using assms
proof (induction ord1 prefix base target rule: deepCompareMap.induct)
  case (1 ord prefix base target)
  show ?case
  proof (cases "base = None \<and> target = None")
    case True
    then show ?thesis by (simp add: deepCompareMap.simps)
  next
    case False
    let ?ks = "remdups (keys base @ keys target)"
    have m1: "mset (ord prefix ?ks) = mset ?ks" and m2: "mset (ord2 prefix ?ks) = mset ?ks"
      using 1 by (simp_all add: valid_order_def)
    have s: "set (ord prefix ?ks) = set ?ks"
      using m1 by (rule mset_eq_setD)
    have rec: "mset (deepCompareMap ord (prefix @ ''.'' @ k) (Some bm) (Some tm)) =
        mset (deepCompareMap ord2 (prefix @ ''.'' @ k) (Some bm) (Some tm))"
      if "k \<in> set ?ks" "comma_ok base k = (VMap bm, True)" "comma_ok target k = (VMap tm, True)"
      for k bm tm
    proof (rule "1.IH" [OF False, where x = k and xc = "VMap bm" and y = True
          and xd = "VMap tm" and ya = True])
      show "k \<in> set (ord prefix ?ks)" using that s by simp
      show "(VMap bm, True) = comma_ok base k" using that by simp
      show "(VMap tm, True) = comma_ok target k" using that by simp
      show "(Some bm, Some tm) = (asMap (VMap bm), asMap (VMap tm))" by simp
    qed (use "1.prems" in simp_all)
    show ?thesis
      using rec
      apply (subst deepCompareMap.simps)
      apply (subst (2) deepCompareMap.simps)
      apply (simp only: False if_False mset_concat_map m1 m2)
      apply (rule arg_cong [where f = sum_mset])
      apply (rule image_mset_cong)
      apply (auto simp: Let_def split: prod.splits option.splits gvalue.splits elim!: asMap.elims)
      done
  qed
qed

lemma deepCompareMap_empty_sym:
  assumes "\<forall>p. valid_order (ord1 p)" "\<forall>p. valid_order (ord2 p)"
  shows "(deepCompareMap ord1 prefix base target = []) = (deepCompareMap ord2 prefix2 target base = [])"
  using assms
proof (induction ord1 prefix base target arbitrary: prefix2 rule: deepCompareMap.induct)
  case (1 ord prefix base target)
  show ?case
  proof (cases "base = None \<and> target = None")
    case True
    then show ?thesis by (simp add: deepCompareMap.simps)
  next
    case False
    then have False': "\<not> (target = None \<and> base = None)" by blast
    let ?ks = "remdups (keys base @ keys target)" and ?ks' = "remdups (keys target @ keys base)"
    have s: "set (ord prefix ?ks) = set ?ks" and s2: "set (ord2 prefix2 ?ks') = set ?ks"
      using 1 by (auto simp: set_valid_order)
    have rec: "(deepCompareMap ord (prefix @ ''.'' @ k) (Some bm) (Some tm) = []) =
        (deepCompareMap ord2 q (Some tm) (Some bm) = [])"
      if "k \<in> set ?ks" "comma_ok base k = (VMap bm, True)" "comma_ok target k = (VMap tm, True)"
      for k bm tm q
    proof (rule "1.IH" [OF False, where x = k and xc = "VMap bm" and y = True
          and xd = "VMap tm" and ya = True])
      show "k \<in> set (ord prefix ?ks)" using that s by simp
      show "(VMap bm, True) = comma_ok base k" using that by simp
      show "(VMap tm, True) = comma_ok target k" using that by simp
      show "(Some bm, Some tm) = (asMap (VMap bm), asMap (VMap tm))" by simp
    qed (use "1.prems" in simp_all)
    show ?thesis
      using rec
      apply (subst deepCompareMap.simps)
      apply (subst (2) deepCompareMap.simps)
      apply (simp only: False False' if_False concat_eq_Nil_conv set_map s s2 ball_simps)
      apply (rule ball_cong [OF refl])
      apply (auto simp: Let_def split: prod.splits option.splits gvalue.splits elim!: asMap.elims)
      done
  qed
qed

lemma compareResources_empty_sym:
  assumes "\<forall>p. valid_order (ord1 p)" "\<forall>p. valid_order (ord2 p)"
  shows "(compareResources ord1 b t = []) = (compareResources ord2 t b = [])"
  using deepCompareMap_empty_sym [OF assms, of "''.spec''" "Spec b" "Spec t" "''.spec''"]
    deepCompareMap_empty_sym [OF assms, of "''.data''" "Data b" "Data t" "''.data''"]
  by (auto simp: compareResources_def)

lemma compareResources_mset_order:
  assumes "\<forall>p. valid_order (ord1 p)" "\<forall>p. valid_order (ord2 p)"
  shows "mset (compareResources ord1 b t) = mset (compareResources ord2 b t)"
  using deepCompareMap_mset_order [OF assms]
  by (simp add: compareResources_def)

lemma mset_concat_if:
  "mset (concat (map (\<lambda>x. if P x then [g x] else []) xs)) = image_mset g (filter_mset P (mset xs))"
  by (induction xs) auto

lemma mset_removedEntries:
  assumes "valid_order (rangeRemoved env)" "distinct (map fst bi)"
  shows "mset (removedEntries env bi ti) =
    image_mset (\<lambda>x. \<lparr>Type = DriftRemoved, Resource = snd x, FieldDiffs = []\<rparr>)
      (filter_mset (\<lambda>x. map_of ti (fst x) = None) (mset bi))"
proof -
  have "removedEntries env bi ti =
      concat (map (\<lambda>x. if map_of ti (fst x) = None then
        [\<lparr>Type = DriftRemoved, Resource = snd x, FieldDiffs = []\<rparr>] else []) (range_map (rangeRemoved env) bi))"
    by (simp add: removedEntries_def case_prod_unfold)
  then show ?thesis
    using mset_range_map [OF assms] by (simp only: mset_concat_if)
qed

lemma mset_addedEntries:
  assumes "valid_order (rangeAdded env)" "distinct (map fst ti)"
  shows "mset (addedEntries env bi ti) =
    image_mset (\<lambda>x. \<lparr>Type = DriftAdded, Resource = snd x, FieldDiffs = []\<rparr>)
      (filter_mset (\<lambda>x. map_of bi (fst x) = None) (mset ti))"
proof -
  have "addedEntries env bi ti =
      concat (map (\<lambda>x. if map_of bi (fst x) = None then
        [\<lparr>Type = DriftAdded, Resource = snd x, FieldDiffs = []\<rparr>] else []) (range_map (rangeAdded env) ti))"
    by (simp add: addedEntries_def case_prod_unfold)
  then show ?thesis
    using mset_range_map [OF assms] by (simp only: mset_concat_if)
qed

lemma mset_modifiedEntries:
  assumes "valid_order (rangeModified env)" "distinct (map fst bi)"
  shows "mset (modifiedEntries env bi ti) =
    image_mset (\<lambda>x. \<lparr>Type = DriftModified, Resource = the (map_of ti (fst x)),
          FieldDiffs = compareResources (rangeAllKeys env) (snd x) (the (map_of ti (fst x)))\<rparr>)
      (filter_mset (\<lambda>x. \<exists>t. map_of ti (fst x) = Some t \<and>
          compareResources (rangeAllKeys env) (snd x) t \<noteq> []) (mset bi))"
proof -
  have "modifiedEntries env bi ti =
      concat (map (\<lambda>x. if \<exists>t. map_of ti (fst x) = Some t \<and>
          compareResources (rangeAllKeys env) (snd x) t \<noteq> [] then
        [\<lparr>Type = DriftModified, Resource = the (map_of ti (fst x)),
          FieldDiffs = compareResources (rangeAllKeys env) (snd x) (the (map_of ti (fst x)))\<rparr>]
        else []) (range_map (rangeModified env) bi))"
    unfolding modifiedEntries_def
    by (intro arg_cong [where f = concat] map_cong refl)
       (auto simp: Let_def split: option.splits)
  then show ?thesis
    using mset_range_map [OF assms] by (simp only: mset_concat_if)
qed

lemma mset_sortEntries: "mset (sortEntries es) = mset es"
  by (simp add: sortEntries_def)

lemma mset_entriesOfType:
  "mset (entriesOfType DriftRemoved (Compare env base target)) =
     mset (removedEntries env (indexResources (Resources base)) (indexResources (Resources target)))"
  "mset (entriesOfType DriftAdded (Compare env base target)) =
     mset (addedEntries env (indexResources (Resources base)) (indexResources (Resources target)))"
  "mset (entriesOfType DriftModified (Compare env base target)) =
     mset (modifiedEntries env (indexResources (Resources base)) (indexResources (Resources target)))"
proof -
  let ?bi = "indexResources (Resources base)" and ?ti = "indexResources (Resources target)"
  have r: "filter_mset (\<lambda>e. Type e = DriftRemoved) (mset (removedEntries env ?bi ?ti)) = mset (removedEntries env ?bi ?ti)"
    "filter_mset (\<lambda>e. Type e = DriftAdded) (mset (removedEntries env ?bi ?ti)) = {#}"
    "filter_mset (\<lambda>e. Type e = DriftModified) (mset (removedEntries env ?bi ?ti)) = {#}"
    by (auto simp: filter_mset_eq_conv dest: Type_removedEntries)
  have a: "filter_mset (\<lambda>e. Type e = DriftRemoved) (mset (addedEntries env ?bi ?ti)) = {#}"
    "filter_mset (\<lambda>e. Type e = DriftAdded) (mset (addedEntries env ?bi ?ti)) = mset (addedEntries env ?bi ?ti)"
    "filter_mset (\<lambda>e. Type e = DriftModified) (mset (addedEntries env ?bi ?ti)) = {#}"
    by (auto simp: filter_mset_eq_conv dest: Type_addedEntries)
  have m: "filter_mset (\<lambda>e. Type e = DriftRemoved) (mset (modifiedEntries env ?bi ?ti)) = {#}"
    "filter_mset (\<lambda>e. Type e = DriftAdded) (mset (modifiedEntries env ?bi ?ti)) = {#}"
    "filter_mset (\<lambda>e. Type e = DriftModified) (mset (modifiedEntries env ?bi ?ti)) = mset (modifiedEntries env ?bi ?ti)"
    by (auto simp: filter_mset_eq_conv dest: Type_modifiedEntries)
  show "mset (entriesOfType DriftRemoved (Compare env base target)) = mset (removedEntries env ?bi ?ti)"
    by (simp add: entriesOfType_def Compare_def Let_def mset_sortEntries r a m)
  show "mset (entriesOfType DriftAdded (Compare env base target)) = mset (addedEntries env ?bi ?ti)"
    by (simp add: entriesOfType_def Compare_def Let_def mset_sortEntries r a m)
  show "mset (entriesOfType DriftModified (Compare env base target)) = mset (modifiedEntries env ?bi ?ti)"
    by (simp add: entriesOfType_def Compare_def Let_def mset_sortEntries r a m)
qed

lemma added_resources_eq_removed_swapped:
  assumes "valid_env env1" "valid_env env2"
  shows "image_mset Resource (mset (entriesOfType DriftAdded (Compare env1 A B))) =
         image_mset Resource (mset (entriesOfType DriftRemoved (Compare env2 B A)))"
proof -
  from assms have v: "valid_order (rangeAdded env1)" "valid_order (rangeRemoved env2)"
    by (simp_all add: valid_env_def)
  show ?thesis
    by (simp add: mset_entriesOfType mset_addedEntries [OF v(1) distinct_indexResources]
        mset_removedEntries [OF v(2) distinct_indexResources] multiset.map_comp comp_def)
qed

lemma modified_names:
  assumes "valid_env env"
  shows "identitiesOfType DriftModified (Compare env A B) =
    mset_set {n. \<exists>a b. resourceNamed A n = Some a \<and> resourceNamed B n = Some b \<and>
      compareResources (rangeAllKeys env) a b \<noteq> []}"
proof -
  let ?ai = "indexResources (Resources A)" and ?bi = "indexResources (Resources B)"
  let ?Q = "\<lambda>x. \<exists>t. map_of ?bi (fst x) = Some t \<and> compareResources (rangeAllKeys env) (snd x) t \<noteq> []"
  from assms have v: "valid_order (rangeModified env)"
    by (simp add: valid_env_def)
  have "identitiesOfType DriftModified (Compare env A B) =
      image_mset (\<lambda>x. FullName (the (map_of ?bi (fst x)))) (filter_mset ?Q (mset ?ai))"
    by (simp add: identitiesOfType_def mset_entriesOfType
        mset_modifiedEntries [OF v distinct_indexResources] multiset.map_comp comp_def)
  also have "\<dots> = image_mset fst (filter_mset ?Q (mset ?ai))"
  proof (rule image_mset_cong)
    fix x assume "x \<in># filter_mset ?Q (mset ?ai)"
    then obtain t where t: "map_of ?bi (fst x) = Some t" by auto
    then have "FullName t = fst x"
      by (auto dest!: map_of_SomeD indexResources_FullName)
    with t show "FullName (the (map_of ?bi (fst x))) = fst x" by simp
  qed
  also have "\<dots> = mset (map fst (filter ?Q ?ai))"
    by simp
  also have "\<dots> = mset_set (set (map fst (filter ?Q ?ai)))"
    by (rule mset_set_set [symmetric])
       (simp add: distinct_map_filter distinct_indexResources)
  also have "set (map fst (filter ?Q ?ai)) =
      {n. \<exists>a b. resourceNamed A n = Some a \<and> resourceNamed B n = Some b \<and>
        compareResources (rangeAllKeys env) a b \<noteq> []}"
  proof (intro set_eqI iffI)
    fix n assume "n \<in> set (map fst (filter ?Q ?ai))"
    then obtain a where "(n, a) \<in> set ?ai" "?Q (n, a)" by auto
    then show "n \<in> {n. \<exists>a b. resourceNamed A n = Some a \<and> resourceNamed B n = Some b \<and>
        compareResources (rangeAllKeys env) a b \<noteq> []}"
      using distinct_indexResources [of "Resources A"] by (auto simp: resourceNamed_def)
  next
    fix n assume "n \<in> {n. \<exists>a b. resourceNamed A n = Some a \<and> resourceNamed B n = Some b \<and>
        compareResources (rangeAllKeys env) a b \<noteq> []}"
    then obtain a b where "map_of ?ai n = Some a" "map_of ?bi n = Some b"
      "compareResources (rangeAllKeys env) a b \<noteq> []"
      by (auto simp: resourceNamed_def)
    then have "(n, a) \<in> set (filter ?Q ?ai)"
      by (auto dest: map_of_SomeD)
    then show "n \<in> set (map fst (filter ?Q ?ai))"
      by force
  qed
  finally show ?thesis .
qed

text \<open>
  C4. Diff symmetry, for any two invocations (each with its own iteration orders): the
  resources classified ADDED by \<open>Compare A B\<close> are, as a multiset, the resources
  classified REMOVED by \<open>Compare B A\<close>, and the other way round; so are their identities;
  and the identities classified MODIFIED by the two reports are the same multiset. The
  identity of a resource is its full name, the key under which \<open>Compare\<close> matches the
  resources of the two snapshots.
\<close>

theorem Compare_diff_symmetry:
  assumes "valid_env env1" "valid_env env2"
  shows "image_mset Resource (mset (entriesOfType DriftAdded (Compare env1 A B))) =
         image_mset Resource (mset (entriesOfType DriftRemoved (Compare env2 B A))) \<and>
         image_mset Resource (mset (entriesOfType DriftRemoved (Compare env1 A B))) =
         image_mset Resource (mset (entriesOfType DriftAdded (Compare env2 B A))) \<and>
         identitiesOfType DriftAdded (Compare env1 A B) = identitiesOfType DriftRemoved (Compare env2 B A) \<and>
         identitiesOfType DriftRemoved (Compare env1 A B) = identitiesOfType DriftAdded (Compare env2 B A) \<and>
         identitiesOfType DriftModified (Compare env1 A B) = identitiesOfType DriftModified (Compare env2 B A)"
proof -
  note ar = added_resources_eq_removed_swapped [OF assms, of A B]
  note ra = added_resources_eq_removed_swapped [OF assms(2,1), of B A, symmetric]
  have i: "identitiesOfType t r = image_mset FullName (image_mset Resource (mset (entriesOfType t r)))" for t r
    by (simp add: identitiesOfType_def multiset.map_comp comp_def)
  have "\<forall>p. valid_order (rangeAllKeys env1 p)" "\<forall>p. valid_order (rangeAllKeys env2 p)"
    using assms by (simp_all add: valid_env_def)
  then have sym: "(compareResources (rangeAllKeys env1) a b \<noteq> []) = (compareResources (rangeAllKeys env2) b a \<noteq> [])" for a b
    using compareResources_empty_sym [of "rangeAllKeys env1" "rangeAllKeys env2" a b] by simp
  have m: "identitiesOfType DriftModified (Compare env1 A B) = identitiesOfType DriftModified (Compare env2 B A)"
    unfolding modified_names [OF assms(1)] modified_names [OF assms(2)]
    by (rule arg_cong [where f = mset_set]) (auto simp: sym)
  show ?thesis
    using ar ra m by (simp add: i)
qed


lemma modifiedEntries_elem:
  assumes "e \<in> set (modifiedEntries env bi ti)"
  shows "\<exists>n b t. map_of bi n = Some b \<and> map_of ti n = Some t \<and> Resource e = t \<and>
           FieldDiffs e = compareResources (rangeAllKeys env) b t \<and> FieldDiffs e \<noteq> []"
proof -
  from assms obtain n b where nb: "(n, b) \<in> set (range_map (rangeModified env) bi)"
    and e: "e \<in> set (case map_of ti n of None \<Rightarrow> []
         | Some targetRes \<Rightarrow>
             (let diffs = compareResources (rangeAllKeys env) b targetRes
              in if length diffs > 0 then
                   [\<lparr>Type = DriftModified, Resource = targetRes, FieldDiffs = diffs\<rparr>]
                 else []))"
    by (auto simp: modifiedEntries_def)
  from nb have "map_of bi n = Some b"
    by (auto simp: range_map_def List.map_filter_def)
  with e show ?thesis
    by (cases "map_of ti n") (auto simp: Let_def split: if_splits intro!: exI [of _ n] exI [of _ b])
qed

lemma deepCompareMap_empty_maps:
  assumes "valid_order (ord prefix)" "isEmptyMap base" "isEmptyMap target"
  shows "deepCompareMap ord prefix base target = []"
proof -
  have "keys base = []" "keys target = []"
    using assms by (auto simp: isEmptyMap_def keys_def)
  moreover have "ord prefix [] = []"
    using assms(1) [unfolded valid_order_def, rule_format, of "[]"] by simp
  ultimately show ?thesis
    by (subst deepCompareMap.simps) simp
qed

text \<open>
  C5, as amended. When the base and the target resource of one full name have equal
  labels and equal annotations, and their \<open>spec\<close> (and likewise their \<open>data\<close>) are equal
  or are both empty, one being nil and the other an empty non-nil map, the report of
  \<open>Compare\<close> has no MODIFIED entry for that full name. (Labels and annotations are compared
  by \<open>reflect.DeepEqual\<close> alone, which tells nil from an empty map: see the counterexample
  below.)
\<close>

theorem Compare_nil_or_empty_spec_data:
  assumes "valid_env env"
    and "resourceNamed base n = Some b" and "resourceNamed target n = Some t"
    and "Labels b = Labels t" and "Annotations b = Annotations t"
    and "Spec b = Spec t \<or> (isEmptyMap (Spec b) \<and> isEmptyMap (Spec t))"
    and "Data b = Data t \<or> (isEmptyMap (Data b) \<and> isEmptyMap (Data t))"
  shows "\<not> (\<exists>e \<in> set (Entries (Compare env base target)).
            Type e = DriftModified \<and> FullName (Resource e) = n)"
proof
  assume "\<exists>e \<in> set (Entries (Compare env base target)).
            Type e = DriftModified \<and> FullName (Resource e) = n"
  then obtain e where e: "e \<in> set (Entries (Compare env base target))"
    "Type e = DriftModified" "FullName (Resource e) = n"
    by blast
  let ?bi = "indexResources (Resources base)" and ?ti = "indexResources (Resources target)"
  from e(1,2) have "e \<in> set (modifiedEntries env ?bi ?ti)"
    unfolding set_Entries_Compare by (auto dest: Type_removedEntries Type_addedEntries)
  then obtain n' b' t' where m: "map_of ?bi n' = Some b'" "map_of ?ti n' = Some t'"
    "Resource e = t'" "compareResources (rangeAllKeys env) b' t' \<noteq> []"
    using modifiedEntries_elem by metis
  from m(2) have "FullName t' = n'"
    by (auto dest!: map_of_SomeD indexResources_FullName)
  with e(3) m(3) have "n' = n" by simp
  with m assms(2,3) have bt: "b' = b" "t' = t"
    by (simp_all add: resourceNamed_def)
  have v: "valid_order (rangeAllKeys env p)" for p
    using assms(1) by (simp add: valid_env_def)
  have "deepCompareMap (rangeAllKeys env) ''.spec'' (Spec b) (Spec t) = []"
    if "Spec b \<noteq> Spec t"
    using that assms(6) v deepCompareMap_empty_maps [of "rangeAllKeys env" "''.spec''" "Spec b" "Spec t"]
    by blast
  moreover have "deepCompareMap (rangeAllKeys env) ''.data'' (Data b) (Data t) = []"
    if "Data b \<noteq> Data t"
    using that assms(7) v deepCompareMap_empty_maps [of "rangeAllKeys env" "''.data''" "Data b" "Data t"]
    by blast
  ultimately have "compareResources (rangeAllKeys env) b t = []"
    using assms(4,5) by (simp add: compareResources_def)
  with m(4) bt show False by simp
qed


theorem Compare_nil_or_empty_spec_data_witness:
  "valid_env envFwd \<and>
   resourceNamed snapNilMaps ''default/ConfigMap/cfg'' = Some cmNil \<and>
   resourceNamed snapEmptySpec ''default/ConfigMap/cfg'' = Some (cmNil\<lparr>Spec := Some []\<rparr>) \<and>
   Spec cmNil = None \<and> Spec (cmNil\<lparr>Spec := Some []\<rparr>) = Some [] \<and>
   \<not> (\<exists>e \<in> set (Entries (Compare envFwd snapNilMaps snapEmptySpec)).
        Type e = DriftModified \<and> FullName (Resource e) = ''default/ConfigMap/cfg'')"
proof -
  let ?b = cmNil and ?t = "cmNil\<lparr>Spec := Some []\<rparr>"
  have b: "resourceNamed snapNilMaps ''default/ConfigMap/cfg'' = Some ?b"
    by code_simp
  have t: "resourceNamed snapEmptySpec ''default/ConfigMap/cfg'' = Some ?t"
    by code_simp
  have l: "Labels ?b = Labels ?t" and a: "Annotations ?b = Annotations ?t"
    by simp_all
  have s: "Spec ?b = Spec ?t \<or> (isEmptyMap (Spec ?b) \<and> isEmptyMap (Spec ?t))"
    by (simp add: isEmptyMap_def cmNil_def emptyResource_def)
  have d: "Data ?b = Data ?t \<or> (isEmptyMap (Data ?b) \<and> isEmptyMap (Data ?t))"
    by simp
  have n: "Spec ?b = None" "Spec ?t = Some []"
    by (simp_all add: cmNil_def emptyResource_def)
  show ?thesis
    using Compare_nil_or_empty_spec_data [OF valid_envFwd b t l a s d] valid_envFwd b t n
    by blast
qed

text \<open>
  C5 as stated fails for labels: two snapshots of one ConfigMap that differ only in the
  labels being nil on one side and an empty non-nil map on the other yield a MODIFIED
  entry with the field diff \<open>.metadata.labels\<close>.
\<close>

theorem Compare_nil_vs_empty_labels_counterexample:
  "resourceNamed snapNilMaps ''default/ConfigMap/cfg'' = Some cmNil \<and>
   resourceNamed snapEmptyLabels ''default/ConfigMap/cfg'' = Some (cmNil\<lparr>Labels := Some []\<rparr>) \<and>
   Entries (Compare envFwd snapNilMaps snapEmptyLabels) =
     [\<lparr>Type = DriftModified, Resource = cmNil\<lparr>Labels := Some []\<rparr>,
       FieldDiffs = [\<lparr>Path = ''.metadata.labels'', OldValue = IStringMap None,
                      NewValue = IStringMap (Some [])\<rparr>]\<rparr>]"
  by code_simp

theorem Compare_diff_symmetry_witness:
  "valid_env envFwd \<and> valid_env envRev \<and>
   identitiesOfType DriftAdded (Compare envFwd snapA snapB) = {#''default/Service/new-svc''#} \<and>
   identitiesOfType DriftRemoved (Compare envRev snapB snapA) = {#''default/Service/new-svc''#} \<and>
   identitiesOfType DriftRemoved (Compare envFwd snapA snapB) = identitiesOfType DriftAdded (Compare envRev snapB snapA) \<and>
   identitiesOfType DriftModified (Compare envFwd snapA snapB) = identitiesOfType DriftModified (Compare envRev snapB snapA)"
proof -
  have "entriesOfType DriftAdded (Compare envFwd snapA snapB) =
      [\<lparr>Type = DriftAdded, Resource = newSvc, FieldDiffs = []\<rparr>]"
    by code_simp
  then have "identitiesOfType DriftAdded (Compare envFwd snapA snapB) = {#FullName newSvc#}"
    by (simp add: identitiesOfType_def)
  moreover have "FullName newSvc = ''default/Service/new-svc''"
    by code_simp
  ultimately show ?thesis
    using Compare_diff_symmetry [OF valid_envFwd valid_envRev, of snapA snapB]
      valid_envFwd valid_envRev
    by simp
qed


lemma map_insort_key:
  "map h (insort_key (\<lambda>x. g (h x)) x xs) = insort_key g (h x) (map h xs)"
  by (induction xs) simp_all

lemma map_sort_key:
  "map h (sort_key (\<lambda>x. g (h x)) xs) = sort_key g (map h xs)"
proof (induction xs)
  case Nil
  show ?case by simp
next
  case (Cons x xs)
  have "map h (sort_key (\<lambda>x. g (h x)) (x # xs)) =
      map h (insort_key (\<lambda>x. g (h x)) x (sort_key (\<lambda>x. g (h x)) xs))"
    by simp
  also have "\<dots> = insort_key g (h x) (map h (sort_key (\<lambda>x. g (h x)) xs))"
    by (rule map_insort_key)
  also have "\<dots> = sort_key g (map h (x # xs))"
    by (simp add: Cons.IH)
  finally show ?case .
qed


lemma sort_key_unique:
  assumes "mset xs = mset ys" "distinct (map g xs)"
  shows "sort_key g xs = sort_key g ys"
proof -
  have m: "mset (map g xs) = mset (map g ys)"
    using assms(1) by simp
  then have dy: "distinct (map g ys)"
    using assms(2) mset_eq_imp_distinct_iff [OF m] by simp
  have "map g (sort_key g xs) = map g (sort_key g ys)"
  proof (rule sorted_distinct_set_unique)
    show "sorted (map g (sort_key g xs))" "sorted (map g (sort_key g ys))"
      by simp_all
    show "distinct (map g (sort_key g xs))"
      using assms(2) by (simp add: distinct_map)
    show "distinct (map g (sort_key g ys))"
      using dy by (simp add: distinct_map)
    have "set (map g xs) = set (map g ys)"
      using m by (rule mset_eq_setD)
    then show "set (map g (sort_key g xs)) = set (map g (sort_key g ys))"
      by simp
  qed
  moreover have "inj_on g (set (sort_key g xs) \<union> set (sort_key g ys))"
  proof -
    have "set ys = set xs"
      using assms(1) by (metis mset_eq_setD)
    moreover have "inj_on g (set xs)"
      using assms(2) by (simp add: distinct_map)
    ultimately show ?thesis by simp
  qed
  ultimately show ?thesis
    by (simp add: inj_on_map_eq_map)
qed

lemma distinct_tagged:
  "distinct (map fst xs) \<Longrightarrow> distinct (map (\<lambda>x. (s, fst x)) xs)"
  by (induction xs) auto

lemma distinct_three_tags:
  assumes "distinct (map fst R)" "distinct (map fst A)" "distinct (map fst M)"
  shows "distinct (map (\<lambda>x. (''REMOVED'', fst x)) R @ map (\<lambda>x. (''ADDED'', fst x)) A @
      map (\<lambda>x. (''MODIFIED'', fst x)) M)"
  using assms by (auto simp: distinct_tagged)

lemma distinct_entryKey_unsorted:
  assumes "valid_env env"
  shows "distinct (map entryKey
    (removedEntries env (indexResources (Resources base)) (indexResources (Resources target)) @
     addedEntries env (indexResources (Resources base)) (indexResources (Resources target)) @
     modifiedEntries env (indexResources (Resources base)) (indexResources (Resources target))))"
proof -
  let ?bi = "indexResources (Resources base)" and ?ti = "indexResources (Resources target)"
  from assms have v: "valid_order (rangeRemoved env)" "valid_order (rangeAdded env)"
    "valid_order (rangeModified env)"
    by (simp_all add: valid_env_def)
  let ?R = "filter (\<lambda>x. map_of ?ti (fst x) = None) ?bi"
  let ?A = "filter (\<lambda>x. map_of ?bi (fst x) = None) ?ti"
  let ?M = "filter (\<lambda>x. \<exists>t. map_of ?ti (fst x) = Some t \<and>
          compareResources (rangeAllKeys env) (snd x) t \<noteq> []) ?bi"
  have r: "mset (map entryKey (removedEntries env ?bi ?ti)) = mset (map (\<lambda>x. (''REMOVED'', fst x)) ?R)"
  proof -
    have "mset (map entryKey (removedEntries env ?bi ?ti)) =
        image_mset (\<lambda>x. (''REMOVED'', FullName (snd x))) (mset ?R)"
      by (simp add: mset_removedEntries [OF v(1) distinct_indexResources] multiset.map_comp
          comp_def entryKey_def)
    also have "\<dots> = image_mset (\<lambda>x. (''REMOVED'', fst x)) (mset ?R)"
      by (rule image_mset_cong) (auto dest: indexResources_FullName)
    finally show ?thesis by simp
  qed
  have a: "mset (map entryKey (addedEntries env ?bi ?ti)) = mset (map (\<lambda>x. (''ADDED'', fst x)) ?A)"
  proof -
    have "mset (map entryKey (addedEntries env ?bi ?ti)) =
        image_mset (\<lambda>x. (''ADDED'', FullName (snd x))) (mset ?A)"
      by (simp add: mset_addedEntries [OF v(2) distinct_indexResources] multiset.map_comp
          comp_def entryKey_def)
    also have "\<dots> = image_mset (\<lambda>x. (''ADDED'', fst x)) (mset ?A)"
      by (rule image_mset_cong) (auto dest: indexResources_FullName)
    finally show ?thesis by simp
  qed
  have m: "mset (map entryKey (modifiedEntries env ?bi ?ti)) = mset (map (\<lambda>x. (''MODIFIED'', fst x)) ?M)"
  proof -
    have "mset (map entryKey (modifiedEntries env ?bi ?ti)) =
        image_mset (\<lambda>x. (''MODIFIED'', FullName (the (map_of ?ti (fst x))))) (mset ?M)"
      by (simp add: mset_modifiedEntries [OF v(3) distinct_indexResources] multiset.map_comp
          comp_def entryKey_def)
    also have "\<dots> = image_mset (\<lambda>x. (''MODIFIED'', fst x)) (mset ?M)"
    proof (rule image_mset_cong)
      fix x assume "x \<in># mset ?M"
      then obtain t where t: "map_of ?ti (fst x) = Some t" by auto
      then have "FullName t = fst x"
        by (auto dest!: map_of_SomeD indexResources_FullName)
      with t show "(''MODIFIED'', FullName (the (map_of ?ti (fst x)))) = (''MODIFIED'', fst x)"
        by simp
    qed
    finally show ?thesis by simp
  qed
  let ?canon = "map (\<lambda>x. (''REMOVED'', fst x)) ?R @ map (\<lambda>x. (''ADDED'', fst x)) ?A @
      map (\<lambda>x. (''MODIFIED'', fst x)) ?M"
  have eq: "mset (map entryKey (removedEntries env ?bi ?ti @ addedEntries env ?bi ?ti @
      modifiedEntries env ?bi ?ti)) = mset ?canon"
    using r a m by simp
  have "distinct ?canon"
    by (rule distinct_three_tags) (simp_all add: distinct_map_filter distinct_indexResources)
  then show ?thesis
    by (simp only: mset_eq_imp_distinct_iff [OF eq])
qed


lemma Summary_from_types:
  "Summary (Compare env base target) =
    \<lparr>TotalResources = int (length (indexResources (Resources target))),
     AddedResources = int (length (filter (\<lambda>t. t = DriftAdded) (map Type (Entries (Compare env base target))))),
     RemovedResources = int (length (filter (\<lambda>t. t = DriftRemoved) (map Type (Entries (Compare env base target))))),
     ModifiedResources = int (length (filter (\<lambda>t. t = DriftModified) (map Type (Entries (Compare env base target))))),
     UnchangedResources = int (length (indexResources (Resources base)))
       - int (length (filter (\<lambda>t. t = DriftRemoved) (map Type (Entries (Compare env base target)))))
       - int (length (filter (\<lambda>t. t = DriftModified) (map Type (Entries (Compare env base target)))))\<rparr>"
  by (simp add: Compare_def Let_def fold_countEntry filter_map comp_def del: filter_append)

lemma mset_entryView_unsorted:
  assumes "valid_env env1" "valid_env env2"
    and that: "distinct (map fst bi)" "distinct (map fst ti)"
  shows "mset (map entryView
      (removedEntries env1 bi ti @ addedEntries env1 bi ti @ modifiedEntries env1 bi ti)) =
    mset (map entryView
      (removedEntries env2 bi ti @ addedEntries env2 bi ti @ modifiedEntries env2 bi ti))"
proof -
  from assms have v1: "valid_order (rangeRemoved env1)" "valid_order (rangeAdded env1)"
    "valid_order (rangeModified env1)" "\<forall>p. valid_order (rangeAllKeys env1 p)"
    and v2: "valid_order (rangeRemoved env2)" "valid_order (rangeAdded env2)"
    "valid_order (rangeModified env2)" "\<forall>p. valid_order (rangeAllKeys env2 p)"
    by (simp_all add: valid_env_def)
  note ms = compareResources_mset_order [OF v1(4) v2(4)]
  have ne: "(compareResources (rangeAllKeys env1) b t \<noteq> []) = (compareResources (rangeAllKeys env2) b t \<noteq> [])" for b t
    using ms [of b t] by (metis mset_zero_iff)
  have r: "mset (removedEntries env1 bi ti) = mset (removedEntries env2 bi ti)"
    by (simp add: mset_removedEntries [OF v1(1) that(1)] mset_removedEntries [OF v2(1) that(1)])
  have a: "mset (addedEntries env1 bi ti) = mset (addedEntries env2 bi ti)"
    by (simp add: mset_addedEntries [OF v1(2) that(2)] mset_addedEntries [OF v2(2) that(2)])
  have m: "image_mset entryView (mset (modifiedEntries env1 bi ti)) =
      image_mset entryView (mset (modifiedEntries env2 bi ti))"
    unfolding mset_modifiedEntries [OF v1(3) that(1)] mset_modifiedEntries [OF v2(3) that(1)]
    by (simp add: multiset.map_comp comp_def entryView_def ms ne)
  show ?thesis
    using r a m by simp
qed

text \<open>
  C6, as amended. Two invocations of \<open>Compare\<close> on equal inputs, whatever their clock
  readings and iteration orders, yield reports with the same summary, the same base and
  target references and the same sequence of entries by type and resource, the field
  diffs of each entry being the same multiset. (The timestamp of the report is the clock
  reading of the invocation, and the order of the field diffs inside an entry is the order
  in which \<open>deepCompareMap\<close> walks the keys.)
\<close>

theorem Compare_deterministic_up_to_clock_and_diff_order:
  assumes "valid_env env1" "valid_env env2"
  shows "map entryView (Entries (Compare env1 base target)) =
           map entryView (Entries (Compare env2 base target)) \<and>
         Summary (Compare env1 base target) = Summary (Compare env2 base target) \<and>
         BaseRef (Compare env1 base target) = BaseRef (Compare env2 base target) \<and>
         TargetRef (Compare env1 base target) = TargetRef (Compare env2 base target)"
proof -
  let ?bi = "indexResources (Resources base)" and ?ti = "indexResources (Resources target)"
  let ?E = "\<lambda>env. removedEntries env ?bi ?ti @ addedEntries env ?bi ?ti @ modifiedEntries env ?bi ?ti"
  let ?g = "\<lambda>v :: DriftType \<times> Resource \<times> FieldDiff multiset.
              (DriftType_string (fst v), FullName (fst (snd v)))"
  have key: "entryKey = (\<lambda>e. ?g (entryView e))"
    by (simp add: entryKey_def entryView_def fun_eq_iff)
  have view: "map entryView (Entries (Compare env base target)) = sort_key ?g (map entryView (?E env))" for env
    unfolding Compare_def Let_def sortEntries_def key
    using map_sort_key [of entryView ?g "?E env"] by simp
  have m: "mset (map entryView (?E env1)) = mset (map entryView (?E env2))"
    by (rule mset_entryView_unsorted [OF assms(1) assms(2) distinct_indexResources distinct_indexResources])
  have "distinct (map entryKey (?E env1))"
    by (rule distinct_entryKey_unsorted [OF assms(1)])
  then have d: "distinct (map ?g (map entryView (?E env1)))"
    unfolding key by (simp only: map_map comp_def)
  have e: "map entryView (Entries (Compare env1 base target)) =
           map entryView (Entries (Compare env2 base target))"
    unfolding view by (rule sort_key_unique [OF m d])
  have ty: "map Type es = map fst (map entryView es)" for es
    by (simp add: entryView_def comp_def)
  have t: "map Type (Entries (Compare env1 base target)) = map Type (Entries (Compare env2 base target))"
    unfolding ty e ..
  have s: "Summary (Compare env1 base target) = Summary (Compare env2 base target)"
    unfolding Summary_from_types [of env1] Summary_from_types [of env2] t ..
  show ?thesis
    using e s by (simp add: Compare_def Let_def)
qed


theorem Compare_deterministic_up_to_clock_and_diff_order_witness:
  "valid_env envFwd \<and> valid_env envRev \<and>
   map entryView (Entries (Compare envFwd snapA snapB)) =
     map entryView (Entries (Compare envRev snapA snapB)) \<and>
   Summary (Compare envFwd snapA snapB) = Summary (Compare envRev snapA snapB) \<and>
   BaseRef (Compare envFwd snapA snapB) = BaseRef (Compare envRev snapA snapB) \<and>
   TargetRef (Compare envFwd snapA snapB) = TargetRef (Compare envRev snapA snapB)"
  using Compare_deterministic_up_to_clock_and_diff_order [OF valid_envFwd valid_envRev, of snapA snapB]
    valid_envFwd valid_envRev
  by simp

text \<open>
  C6 as stated fails: on the same two snapshots, an invocation at a later clock reading
  returns a different report (its timestamp), and an invocation whose maps are iterated in
  another order returns the field diffs of the MODIFIED entry in another order.
\<close>

theorem Compare_not_pure_counterexample:
  "valid_env envFwd \<and> valid_env envLater \<and> valid_env envRev \<and>
   DriftReport.Timestamp (Compare envFwd snapA snapB) = 1000 \<and>
   DriftReport.Timestamp (Compare envLater snapA snapB) = 2000 \<and>
   Compare envFwd snapA snapB \<noteq> Compare envLater snapA snapB \<and>
   map Path (FieldDiffs (Entries (Compare envFwd snapA snapB) ! 1)) =
     [''.spec.replicas'', ''.spec.template.image''] \<and>
   map Path (FieldDiffs (Entries (Compare envRev snapA snapB) ! 1)) =
     [''.spec.template.image'', ''.spec.replicas''] \<and>
   Entries (Compare envFwd snapA snapB) \<noteq> Entries (Compare envRev snapA snapB)"
proof -
  have t: "DriftReport.Timestamp (Compare envFwd snapA snapB) = 1000"
    "DriftReport.Timestamp (Compare envLater snapA snapB) = 2000"
    by (simp_all add: Compare_def Let_def envFwd_def envLater_def)
  have ne: "Compare envFwd snapA snapB \<noteq> Compare envLater snapA snapB"
  proof
    assume "Compare envFwd snapA snapB = Compare envLater snapA snapB"
    then have "DriftReport.Timestamp (Compare envFwd snapA snapB) =
        DriftReport.Timestamp (Compare envLater snapA snapB)"
      by simp
    with t show False by simp
  qed
  have f: "map Path (FieldDiffs (Entries (Compare envFwd snapA snapB) ! 1)) =
     [''.spec.replicas'', ''.spec.template.image'']"
    by code_simp
  have r: "map Path (FieldDiffs (Entries (Compare envRev snapA snapB) ! 1)) =
     [''.spec.template.image'', ''.spec.replicas'']"
    by code_simp
  from f r have "Entries (Compare envFwd snapA snapB) \<noteq> Entries (Compare envRev snapA snapB)"
    by auto
  with t ne f r valid_envFwd valid_envLater valid_envRev show ?thesis
    by blast
qed










lemma inNamespaceList_iff: "inNamespaceList nss ns = (ns \<in> set nss)"
  by (induction nss) auto

lemma collectOne_keeps_namespaced:
  assumes "SnapshotConfig.Namespaces (Snapshot c) \<noteq> []" "[] \<notin> set (SnapshotConfig.Namespaces (Snapshot c))"
    and "\<forall>r \<in> set (fst acc). Namespace r \<noteq> []"
  shows "\<forall>r \<in> set (fst (collectOne c res acc)). Namespace r \<noteq> []"
  using assms
  by (auto simp: collectOne_def shouldIncludeNamespace_def inNamespaceList_iff)

lemma fold_collectOne_keeps_namespaced:
  assumes "SnapshotConfig.Namespaces (Snapshot c) \<noteq> []" "[] \<notin> set (SnapshotConfig.Namespaces (Snapshot c))"
    and "\<forall>r \<in> set (fst acc). Namespace r \<noteq> []"
  shows "\<forall>r \<in> set (fst (fold (collectOne c) rs acc)). Namespace r \<noteq> []"
  using assms(3)
proof (induction rs arbitrary: acc)
  case Nil
  then show ?case by simp
next
  case (Cons res rs)
  show ?case
    using Cons.IH [OF collectOne_keeps_namespaced [OF assms(1,2) Cons.prems]] by simp
qed

lemma collectType_keeps_namespaced:
  assumes "SnapshotConfig.Namespaces (Snapshot c) \<noteq> []" "[] \<notin> set (SnapshotConfig.Namespaces (Snapshot c))"
    and "\<forall>r \<in> set (fst acc). Namespace r \<noteq> []"
  shows "\<forall>r \<in> set (fst (collectType env c resType acc)). Namespace r \<noteq> []"
  using assms(3) fold_collectOne_keeps_namespaced [OF assms(1,2)]
  by (auto simp: collectType_def split: option.splits sum.splits)

lemma fold_collectType_keeps_namespaced:
  assumes "SnapshotConfig.Namespaces (Snapshot c) \<noteq> []" "[] \<notin> set (SnapshotConfig.Namespaces (Snapshot c))"
    and "\<forall>r \<in> set (fst acc). Namespace r \<noteq> []"
  shows "\<forall>r \<in> set (fst (fold (collectType env c) types acc)). Namespace r \<noteq> []"
  using assms(3)
proof (induction types arbitrary: acc)
  case Nil
  then show ?case by simp
next
  case (Cons ty types)
  show ?case
    using Cons.IH [OF collectType_keeps_namespaced [OF assms(1,2) Cons.prems]] by simp
qed

text \<open>
  C10. With a non-empty namespace allow-list that does not contain the empty string, no
  cluster-scoped resource (empty namespace) is part of the collected snapshot, whatever
  the cluster returns: the empty namespace is checked against the allow-list like any
  other namespace.
\<close>

theorem Collect_allow_list_drops_cluster_scoped:
  assumes "SnapshotConfig.Namespaces (Snapshot c) \<noteq> []"
    and "[] \<notin> set (SnapshotConfig.Namespaces (Snapshot c))"
  shows "\<forall>res \<in> set (Resources (Collect env c)). Namespace res \<noteq> []"
proof -
  have "\<forall>r \<in> set (fst (fold (collectType env c) (ResourceTypes (Snapshot c)) ([], []))). Namespace r \<noteq> []"
    by (rule fold_collectType_keeps_namespaced [OF assms]) simp
  then show ?thesis
    by (simp add: Collect_def case_prod_unfold Let_def)
qed

theorem Collect_allow_list_drops_cluster_scoped_witness:
  "SnapshotConfig.Namespaces (Snapshot sampleConfig) = [''default''] \<and>
   collectResource sampleCluster (''rbac.authorization.k8s.io'', ''v1'', ''clusterroles'') = Inr [clusterRoleAdmin] \<and>
   Namespace clusterRoleAdmin = [] \<and>
   Resources (Collect sampleCluster sampleConfig) = [nginx3] \<and>
   Namespace (Resources (Collect sampleCluster sampleConfig) ! 0) \<noteq> []"
proof -
  have ns: "SnapshotConfig.Namespaces (Snapshot sampleConfig) = [''default'']"
    by (simp add: sampleConfig_def)
  have cr: "collectResource sampleCluster (''rbac.authorization.k8s.io'', ''v1'', ''clusterroles'') = Inr [clusterRoleAdmin]"
    by (simp add: sampleCluster_def)
  have ca: "Namespace clusterRoleAdmin = []"
    by (simp add: clusterRoleAdmin_def emptyResource_def)
  have rs: "Resources (Collect sampleCluster sampleConfig) = [nginx3]"
    by code_simp
  have "\<forall>res \<in> set (Resources (Collect sampleCluster sampleConfig)). Namespace res \<noteq> []"
    by (rule Collect_allow_list_drops_cluster_scoped) (simp_all add: ns)
  then have "Namespace (Resources (Collect sampleCluster sampleConfig) ! 0) \<noteq> []"
    using rs by simp
  with ns cr ca rs show ?thesis by simp
qed


lemma cleanEntries_ok:
  "cleanEntries env outputDir names es = (None, es') \<Longrightarrow>
   es' = filter (\<lambda>e. fst e = ''.git'' \<or> fst e \<notin> set names) es"
proof (induction names arbitrary: es)
  case Nil
  then show ?case by simp
next
  case (Cons name rest)
  show ?case
  proof (cases "name = ''.git''")
    case True
    with Cons.prems have "cleanEntries env outputDir rest es = (None, es')" by simp
    from Cons.IH [OF this] True show ?thesis
      by (auto intro: filter_cong)
  next
    case False
    with Cons.prems have r: "removeAllEntry env name = None"
      and c: "cleanEntries env outputDir rest (removeAll name es) = (None, es')"
      by (auto split: option.splits)
    from Cons.IH [OF c] False show ?thesis
      by (auto simp: removeAll_def intro: filter_cong)
  qed
qed

lemma cleanDirectory_ok:
  assumes "fst (cleanDirectory env outputDir d) = None"
  shows "snd (cleanDirectory env outputDir d) = Some (filter (\<lambda>e. fst e = ''.git'') (dirEntries d))"
proof -
  obtain err es where ce: "cleanEntries env outputDir (readDir (dirEntries d)) (dirEntries d) = (err, es)"
    by fastforce
  with assms have ok: "mkdirAllOutputDir env = None" "readDirOutputDir env = None" "err = None"
    by (auto simp: cleanDirectory_def split: option.splits)
  have "es = filter (\<lambda>e. fst e = ''.git'' \<or> fst e \<notin> set (readDir (dirEntries d))) (dirEntries d)"
    using cleanEntries_ok [of env outputDir _ _ es] ce ok(3) by simp
  also have "\<dots> = filter (\<lambda>e. fst e = ''.git'') (dirEntries d)"
    by (rule filter_cong) (auto simp: readDir_def)
  finally show ?thesis
    using ce ok by (simp add: cleanDirectory_def)
qed

text \<open>
  C7. When the clean step of \<open>Write\<close> succeeds, what it leaves of the output directory is
  exactly the entry \<open>.git\<close>, unchanged, every other entry directly under the root being
  removed; the repopulation of \<open>Write\<close> then starts from that directory, so its result is
  the one it has on a directory holding nothing but \<open>.git\<close> and nothing of the earlier tree
  survives. When the clean step fails, \<open>Write\<close> returns the error without writing.
\<close>

theorem Write_cleans_all_but_git:
  "(fst (cleanDirectory env outputDir d) = None \<longrightarrow>
      snd (cleanDirectory env outputDir d) = Some (filter (\<lambda>e. fst e = ''.git'') (dirEntries d)) \<and>
      Write env outputDir snapshot d =
        repopulate env snapshot (Some (filter (\<lambda>e. fst e = ''.git'') (dirEntries d)))) \<and>
   (\<forall>err. fst (cleanDirectory env outputDir d) = Some err \<longrightarrow>
      Write env outputDir snapshot d =
        (Some (Wrap ''failed to clean output directory'' err), snd (cleanDirectory env outputDir d)))"
proof (intro conjI impI allI)
  assume ok: "fst (cleanDirectory env outputDir d) = None"
  then show c: "snd (cleanDirectory env outputDir d) = Some (filter (\<lambda>e. fst e = ''.git'') (dirEntries d))"
    by (rule cleanDirectory_ok)
  from ok c show "Write env outputDir snapshot d =
      repopulate env snapshot (Some (filter (\<lambda>e. fst e = ''.git'') (dirEntries d)))"
    by (cases "cleanDirectory env outputDir d") (auto simp: Write_def)
next
  fix err
  assume "fst (cleanDirectory env outputDir d) = Some err"
  then show "Write env outputDir snapshot d =
      (Some (Wrap ''failed to clean output directory'' err), snd (cleanDirectory env outputDir d))"
    by (cases "cleanDirectory env outputDir d") (auto simp: Write_def)
qed

theorem Write_cleans_all_but_git_witness:
  "fst (cleanDirectory sampleDisk ''out'' oldTree) = None \<and>
   snd (cleanDirectory sampleDisk ''out'' oldTree) = Some [(''.git'', gitDir)] \<and>
   Write sampleDisk ''out'' snapB oldTree = repopulate sampleDisk snapB (Some [(''.git'', gitDir)]) \<and>
   Write sampleDisk ''out'' snapB oldTree =
     (None, Some [(''.git'', gitDir), (''_metadata.yaml'', File ''metadata''),
        (''default/Service/new-svc.yaml'', File ''resource''),
        (''default/Deployment/nginx.yaml'', File ''resource'')])"
proof -
  have ok: "fst (cleanDirectory sampleDisk ''out'' oldTree) = None"
    by code_simp
  have f: "filter (\<lambda>e. fst e = ''.git'') (dirEntries oldTree) = [(''.git'', gitDir)]"
    by code_simp
  have w: "Write sampleDisk ''out'' snapB oldTree =
     (None, Some [(''.git'', gitDir), (''_metadata.yaml'', File ''metadata''),
        (''default/Service/new-svc.yaml'', File ''resource''),
        (''default/Deployment/nginx.yaml'', File ''resource'')])"
    by code_simp
  show ?thesis
    using Write_cleans_all_but_git [of sampleDisk "''out''" oldTree snapB] ok f w by simp
qed


lemma bestSoFar_step:
  assumes "bestSoFar t seen best" "Hash c \<noteq> []" "\<forall>c \<in> set seen. Hash c \<noteq> []"
  shows "bestSoFar t (seen @ [c]) (findStep t c best)"
proof (cases "When (Author c) \<le> t")
  case False
  then have "findStep t c best = best"
    by (auto simp: findStep_def Let_def)
  with assms(1) False show ?thesis
    unfolding bestSoFar_def by auto
next
  case True
  show ?thesis
  proof (cases "fst best = []")
    case e: True
    then have "findStep t c best = (Hash c, When (Author c))"
      using True by (auto simp: findStep_def Let_def)
    moreover have "\<forall>c \<in> set seen. t < When (Author c)"
      using assms(1,3) e unfolding bestSoFar_def by force
    ultimately show ?thesis
      using True unfolding bestSoFar_def by auto
  next
    case ne: False
    then obtain b where b: "b \<in> set seen" "best = (Hash b, When (Author b))" "When (Author b) \<le> t"
      "\<forall>c' \<in> set seen. When (Author c') \<le> t \<longrightarrow> When (Author c') \<le> When (Author b)"
      using assms(1) unfolding bestSoFar_def by auto
    show ?thesis
    proof (cases "When (Author c) > When (Author b)")
      case gt: True
      then have "findStep t c best = (Hash c, When (Author c))"
        using True b(2) by (auto simp: findStep_def Let_def)
      then show ?thesis
        using True gt b unfolding bestSoFar_def by fastforce
    next
      case le: False
      then have "findStep t c best = best"
        using True b(2) ne by (auto simp: findStep_def Let_def)
      then show ?thesis
        using le b unfolding bestSoFar_def by fastforce
    qed
  qed
qed

lemma bestSoFar_fold:
  assumes "bestSoFar t seen best" "\<forall>c \<in> set seen. Hash c \<noteq> []" "\<forall>c \<in> set rest. Hash c \<noteq> []"
  shows "bestSoFar t (seen @ rest) (fold (findStep t) rest best)"
  using assms
proof (induction rest arbitrary: seen best)
  case Nil
  then show ?case by simp
next
  case (Cons c rest)
  have "bestSoFar t (seen @ [c]) (findStep t c best)"
    using Cons.prems by (intro bestSoFar_step) auto
  from Cons.IH [OF this] Cons.prems show ?case by simp
qed

lemma bestSoFar_all:
  assumes "\<forall>c \<in> set commits. Hash c \<noteq> []"
  shows "bestSoFar t commits (fold (findStep t) commits ([], 0))"
  using bestSoFar_fold [of t "[]" "([], 0)" commits] assms
  by (simp add: bestSoFar_def)

lemma FindCommitByTime_read:
  assumes "gitLog env repo = Inr iter" "gitForEach env repo iter = Inr commits"
  shows "FindCommitByTime env repo t =
    (if fst (fold (findStep t) commits ([], 0)) = [] then
       Inl (Err (''no snapshot found at or before '' @ formatRFC3339 env t))
     else Inr (fst (fold (findStep t) commits ([], 0))))"
  using assms by (simp add: FindCommitByTime_def case_prod_unfold)

text \<open>On a repository without any commit \<open>repo.Log\<close> itself fails, and the error of
  \<open>FindCommitByTime\<close> is that failure, wrapped.\<close>

lemma FindCommitByTime_no_commit:
  assumes "fails env CallLog = None" "headCommit repo = None"
  shows "FindCommitByTime env repo t = Inl (Wrap ''failed to get log'' (Err ''reference not found''))"
  using assms by (simp add: FindCommitByTime_def gitLog_def)

text \<open>
  C3. When the log of the repository can be read, \<open>FindCommitByTime t\<close> returns the hash of
  a commit of the log whose author time is at most \<open>t\<close> and is the largest such author
  time, and it returns the error "no snapshot found" exactly when no commit of the log has
  an author time at most \<open>t\<close>; in particular, when the log consists of three commits with
  author times \<open>t1 < t2 < t3\<close>, the result for every \<open>t\<close> with \<open>t2 \<le> t < t3\<close> is the commit of
  \<open>t2\<close>. (Commit hashes are never the empty string.)
\<close>

theorem FindCommitByTime_largest_at_or_before:
  assumes "gitLog env repo = Inr iter" and "gitForEach env repo iter = Inr commits"
    and "\<forall>c \<in> set commits. Hash c \<noteq> []"
  shows "((\<exists>c \<in> set commits. When (Author c) \<le> t) \<longrightarrow>
            (\<exists>c \<in> set commits. FindCommitByTime env repo t = Inr (Hash c) \<and>
               When (Author c) \<le> t \<and>
               (\<forall>c' \<in> set commits. When (Author c') \<le> t \<longrightarrow> When (Author c') \<le> When (Author c)))) \<and>
         ((\<exists>err. FindCommitByTime env repo t = Inl err) =
            (\<forall>c \<in> set commits. t < When (Author c))) \<and>
         ((\<forall>c \<in> set commits. t < When (Author c)) \<longrightarrow>
            FindCommitByTime env repo t =
              Inl (Err (''no snapshot found at or before '' @ formatRFC3339 env t))) \<and>
         (set commits = {c1, c2, c3} \<and> When (Author c1) < When (Author c2) \<and>
            When (Author c2) < When (Author c3) \<and> When (Author c2) \<le> t \<and> t < When (Author c3) \<longrightarrow>
            FindCommitByTime env repo t = Inr (Hash c2))"
proof -
  let ?best = "fold (findStep t) commits ([], 0)"
  note r = FindCommitByTime_read [OF assms(1,2), of t]
  have b: "bestSoFar t commits ?best"
    by (rule bestSoFar_all [OF assms(3)])
  have none: "fst ?best = []" if "\<forall>c \<in> set commits. t < When (Author c)"
    using b that unfolding bestSoFar_def by fastforce
  have some: "\<exists>c \<in> set commits. ?best = (Hash c, When (Author c)) \<and> When (Author c) \<le> t \<and>
      (\<forall>c' \<in> set commits. When (Author c') \<le> t \<longrightarrow> When (Author c') \<le> When (Author c))"
    if "\<exists>c \<in> set commits. When (Author c) \<le> t"
    using b that unfolding bestSoFar_def by fastforce
  have found: "\<exists>c \<in> set commits. FindCommitByTime env repo t = Inr (Hash c) \<and>
               When (Author c) \<le> t \<and>
               (\<forall>c' \<in> set commits. When (Author c') \<le> t \<longrightarrow> When (Author c') \<le> When (Author c))"
    if ex: "\<exists>c \<in> set commits. When (Author c) \<le> t"
  proof -
    from some [OF ex] obtain c where c: "c \<in> set commits" "?best = (Hash c, When (Author c))"
      "When (Author c) \<le> t"
      "\<forall>c' \<in> set commits. When (Author c') \<le> t \<longrightarrow> When (Author c') \<le> When (Author c)"
      by blast
    have "Hash c \<noteq> []" using assms(3) c(1) by blast
    with c(2) have "FindCommitByTime env repo t = Inr (Hash c)"
      by (simp add: r)
    with c show ?thesis by blast
  qed
  have notfound: "FindCommitByTime env repo t =
      Inl (Err (''no snapshot found at or before '' @ formatRFC3339 env t))"
    if "\<forall>c \<in> set commits. t < When (Author c)"
    using none [OF that] by (simp add: r)
  have iff: "(\<exists>err. FindCommitByTime env repo t = Inl err) =
            (\<forall>c \<in> set commits. t < When (Author c))"
  proof
    assume "\<exists>err. FindCommitByTime env repo t = Inl err"
    then show "\<forall>c \<in> set commits. t < When (Author c)"
      using found by fastforce
  next
    assume "\<forall>c \<in> set commits. t < When (Author c)"
    then show "\<exists>err. FindCommitByTime env repo t = Inl err"
      using notfound by blast
  qed
  have three: "FindCommitByTime env repo t = Inr (Hash c2)"
    if h: "set commits = {c1, c2, c3}" "When (Author c1) < When (Author c2)"
      "When (Author c2) < When (Author c3)" "When (Author c2) \<le> t" "t < When (Author c3)"
  proof -
    have "\<exists>c \<in> set commits. When (Author c) \<le> t"
      using h(1,4) by blast
    from found [OF this] obtain c where c: "c \<in> set commits"
      "FindCommitByTime env repo t = Inr (Hash c)" "When (Author c) \<le> t"
      "\<forall>c' \<in> set commits. When (Author c') \<le> t \<longrightarrow> When (Author c') \<le> When (Author c)"
      by blast
    have "When (Author c2) \<le> When (Author c)"
      using c(4) h(1,4) by blast
    with c(1,3) h have "c = c2" by auto
    with c(2) show ?thesis by simp
  qed
  show ?thesis
    using found iff notfound three by blast
qed

theorem FindCommitByTime_largest_at_or_before_witness:
  "gitLog sampleGit (repoOn ''main'') = Inr (Hash commit3) \<and>
   gitForEach sampleGit (repoOn ''main'') (Hash commit3) = Inr [commit3, commit2, commit1] \<and>
   Hash commit3 \<noteq> [] \<and> Hash commit2 \<noteq> [] \<and> Hash commit1 \<noteq> [] \<and>
   When (Author commit1) = 100 \<and> When (Author commit2) = 200 \<and> When (Author commit3) = 300 \<and>
   FindCommitByTime sampleGit (repoOn ''main'') 250 = Inr (Hash commit2) \<and>
   FindCommitByTime sampleGit (repoOn ''main'') 50 = Inl (Err ''no snapshot found at or before time'')"
proof -
  have l: "gitLog sampleGit (repoOn ''main'') = Inr (Hash commit3)"
    by code_simp
  have f: "gitForEach sampleGit (repoOn ''main'') (Hash commit3) = Inr [commit3, commit2, commit1]"
    by code_simp
  have h: "Hash commit3 \<noteq> []" "Hash commit2 \<noteq> []" "Hash commit1 \<noteq> []"
    by (simp_all add: commit1_def commit2_def commit3_def)
  then have hs: "\<forall>c \<in> set [commit3, commit2, commit1]. Hash c \<noteq> []"
    by simp
  have w: "When (Author commit1) = 100" "When (Author commit2) = 200" "When (Author commit3) = 300"
    by (simp_all add: commit1_def commit2_def commit3_def signatureAt_def)
  have fmt: "formatRFC3339 sampleGit 50 = ''time''"
    by (simp add: sampleGit_def)
  have "FindCommitByTime sampleGit (repoOn ''main'') 250 = Inr (Hash commit2)"
    using FindCommitByTime_largest_at_or_before [OF l f hs, of 250 commit1 commit2 commit3] w
    by auto
  moreover have "FindCommitByTime sampleGit (repoOn ''main'') 50 =
      Inl (Err (''no snapshot found at or before '' @ formatRFC3339 sampleGit 50))"
    using FindCommitByTime_largest_at_or_before [OF l f hs, of 50 commit1 commit2 commit3] w
    by auto
  ultimately show ?thesis
    using l f h w fmt by simp
qed


lemma Commit_clean:
  assumes "fails env CallWorktree = None" "fails env CallAdd = None" "fails env CallStatus = None"
    and "worktree repo = headTree repo"
  shows "Commit env config metadata repo = (Inr [], repo\<lparr>index := worktree repo\<rparr>)"
proof -
  have a: "gitAddAll env repo = (None, repo\<lparr>index := worktree repo\<rparr>)"
    using assms(2) by (simp add: gitAddAll_def)
  have "headTree (repo\<lparr>index := worktree repo\<rparr>) = headTree repo"
    by (simp add: headTree_def headCommit_def findObject_def split: Head.split option.split)
  then have s: "gitStatusIsClean env (repo\<lparr>index := worktree repo\<rparr>) = Inr True"
    using assms(3,4) by (simp add: gitStatusIsClean_def)
  show ?thesis
    using assms(1) a s by (simp add: Commit_def)
qed

lemma gitCommit_new_object:
  assumes "gitCommit env message author repo = (Inr h, repo')"
  shows "\<exists>c. objects repo' = c # objects repo \<and> Hash c = h \<and> TreeFiles c = index repo \<and>
           Author c = author \<and> Parent c = headCommit repo"
  using assms
  by (auto simp: gitCommit_def Let_def split: option.splits Head.splits)

lemma gitAddAll_objects:
  "gitAddAll env repo = (None, repo1) \<Longrightarrow>
     objects repo1 = objects repo \<and> index repo1 = worktree repo \<and> headCommit repo1 = headCommit repo"
  by (auto simp: gitAddAll_def headCommit_def split: option.splits Head.splits)

lemma Commit_hash_new_commit:
  assumes "Commit env config metadata repo = (Inr h, repo')" "h \<noteq> []"
  shows "\<exists>c. objects repo' = c # objects repo \<and> Hash c = h \<and> TreeFiles c = worktree repo \<and>
           When (Author c) = SnapshotMetadata.Timestamp metadata \<and> Parent c = headCommit repo"
proof -
  from assms obtain repo1 where a: "gitAddAll env repo = (None, repo1)"
    by (auto simp: Commit_def split: option.splits prod.splits sum.splits if_splits)
  let ?message = "CommitMessagePrefix config @ '' '' @
                   formatRFC3339 env (SnapshotMetadata.Timestamp metadata) @
                   [CHR '' '', CHR 0xE2, CHR 0x80, CHR 0x94, CHR '' ''] @
                   formatInt env (ResourceCount metadata) @ '' resources across '' @
                   formatInt env (int (length (SnapshotMetadata.Namespaces metadata))) @
                   '' namespaces''"
  let ?author = "\<lparr>Name = AuthorName config, Email = AuthorEmail config,
                            When = SnapshotMetadata.Timestamp metadata\<rparr>"
  from assms a obtain commit commitObj where
    g: "gitCommit env ?message ?author repo1 = (Inr commit, repo')"
    and o: "gitCommitObject env repo' commit = Inr commitObj" and hc: "h = Hash commitObj"
    by (auto simp: Commit_def Let_def split: option.splits prod.splits sum.splits if_splits)
  from gitCommit_new_object [OF g] obtain c where c: "objects repo' = c # objects repo1"
    "Hash c = commit" "TreeFiles c = index repo1" "Author c = ?author" "Parent c = headCommit repo1"
    by blast
  from o c(1,2) have "commitObj = c"
    by (auto simp: gitCommitObject_def findObject_def split: option.splits)
  with c hc gitAddAll_objects [OF a] show ?thesis
    by auto
qed

text \<open>
  C2. When no library call fails and the working tree is the tree of the last commit, so
  that staging all changes leaves the index clean, \<open>Commit\<close> returns the empty string with
  a nil error and leaves the commit objects, the branches and the head as they are; and
  whenever \<open>Commit\<close> returns a non-empty hash, the repository has one new commit object
  with that hash, made of the working tree at the capture timestamp.
\<close>

theorem Commit_clean_index_returns_empty_hash:
  "(fails env CallWorktree = None \<and> fails env CallAdd = None \<and> fails env CallStatus = None \<and>
      worktree repo = headTree repo \<longrightarrow>
      fst (Commit env config metadata repo) = Inr [] \<and>
      objects (snd (Commit env config metadata repo)) = objects repo \<and>
      branches (snd (Commit env config metadata repo)) = branches repo \<and>
      head (snd (Commit env config metadata repo)) = head repo \<and>
      worktree (snd (Commit env config metadata repo)) = worktree repo) \<and>
   (\<forall>h. fst (Commit env config metadata repo) = Inr h \<and> h \<noteq> [] \<longrightarrow>
      (\<exists>c. objects (snd (Commit env config metadata repo)) = c # objects repo \<and> Hash c = h \<and>
           TreeFiles c = worktree repo \<and>
           When (Author c) = SnapshotMetadata.Timestamp metadata \<and> Parent c = headCommit repo))"
proof (intro conjI impI allI)
  fix h
  assume "fst (Commit env config metadata repo) = Inr h \<and> h \<noteq> []"
  then have "Commit env config metadata repo = (Inr h, snd (Commit env config metadata repo))" "h \<noteq> []"
    by (simp_all add: prod_eq_iff)
  then show "\<exists>c. objects (snd (Commit env config metadata repo)) = c # objects repo \<and> Hash c = h \<and>
           TreeFiles c = worktree repo \<and>
           When (Author c) = SnapshotMetadata.Timestamp metadata \<and> Parent c = headCommit repo"
    by (rule Commit_hash_new_commit)
qed (simp_all add: Commit_clean)

theorem Commit_clean_index_returns_empty_hash_witness:
  "fails sampleGit CallWorktree = None \<and> fails sampleGit CallAdd = None \<and>
   fails sampleGit CallStatus = None \<and>
   worktree (repoOn ''main'') = headTree (repoOn ''main'') \<and>
   Commit sampleGit (Git sampleConfig) emptyMetadata (repoOn ''main'') = (Inr [], repoOn ''main'') \<and>
   fst (Commit sampleGit (Git sampleConfig) emptyMetadata ((repoOn ''main'')\<lparr>worktree := []\<rparr>)) =
     Inr (replicate 40 (CHR ''4'')) \<and>
   length (objects (snd (Commit sampleGit (Git sampleConfig) emptyMetadata
        ((repoOn ''main'')\<lparr>worktree := []\<rparr>)))) = 4"
proof -
  have f: "fails sampleGit CallWorktree = None" "fails sampleGit CallAdd = None"
    "fails sampleGit CallStatus = None"
    by (simp_all add: sampleGit_def)
  have t: "worktree (repoOn ''main'') = headTree (repoOn ''main'')"
    by code_simp
  have c: "Commit sampleGit (Git sampleConfig) emptyMetadata (repoOn ''main'') = (Inr [], repoOn ''main'')"
    by code_simp
  let ?r = "(repoOn ''main'')\<lparr>worktree := []\<rparr>"
  have d: "fst (Commit sampleGit (Git sampleConfig) emptyMetadata ?r) = Inr (replicate 40 (CHR ''4''))"
    by code_simp
  have n: "replicate 40 (CHR ''4'') \<noteq> []"
    by simp
  have o: "length (objects ?r) = 3"
    by code_simp
  from Commit_clean_index_returns_empty_hash [of sampleGit ?r "Git sampleConfig" emptyMetadata] d n
  obtain c' where "objects (snd (Commit sampleGit (Git sampleConfig) emptyMetadata ?r)) = c' # objects ?r"
    by blast
  with o have "length (objects (snd (Commit sampleGit (Git sampleConfig) emptyMetadata ?r))) = 4"
    by simp
  with f t c d show ?thesis
    by simp
qed



text \<open>When \<open>CheckoutAt\<close> fails, \<open>SnapshotByCommit\<close> returns before its \<open>defer\<close> statement, with
  the repository as the failed checkout left it; \<open>CheckoutBranch\<close> is not run on this
  path.\<close>

lemma SnapshotByCommit_failed_checkout:
  assumes "8 \<le> length h" "CheckoutAt env h repo = (Some err, repo1)"
  shows "SnapshotByCommit env Read config h repo =
    (Inl (Wrap (''failed to checkout commit '' @ h) err), repo1)"
  using assms by (simp add: SnapshotByCommit_def)




end
